theory Spec2Isabelle
  imports Complex_Main "HOL-Library.Multiset"
begin

section \<open>The operator library of needle (python/needle/ops.py)\<close>

text \<open>
  The operator classes of \<^verbatim>\<open>ops.py\<close> are embedded as a datatype of operators with two
  functions, \<open>compute\<close> (the forward computation on arrays) and \<open>gradient\<close> (the backward
  rule, which builds new graph nodes).  The array backend (numpy, imported as
  \<^verbatim>\<open>array_api\<close>) and the graph engine (\<^verbatim>\<open>autograd.py\<close>) are not part of the source file;
  the parts of them that the operators call are modelled below.
\<close>

subsection \<open>Errors\<close>

datatype error = TypeError | ValueError | AxisError | IndexError

definition bind_r :: "error + 'a \<Rightarrow> ('a \<Rightarrow> error + 'b) \<Rightarrow> error + 'b" where
  "bind_r m f = (case m of Inl e \<Rightarrow> Inl e | Inr v \<Rightarrow> f v)"

fun collect :: "(error + 'a) list \<Rightarrow> error + 'a list" where
  "collect [] = Inr []"
| "collect (Inl e # rs) = Inl e"
| "collect (Inr v # rs) = (case collect rs of Inl e \<Rightarrow> Inl e | Inr vs \<Rightarrow> Inr (v # vs))"

subsection \<open>Entries of arrays\<close>

text \<open>
  An entry of an array is a number or NaN.  Arithmetic with a NaN gives NaN (but any entry
  to the power 0 is 1), the maximum with a NaN is NaN, and a comparison with a NaN is
  false.  Numbers are exact reals: the rounding and the infinities of the backend's
  floats are outside the model, and so is the value of a quotient by zero or of the
  logarithm of a number that is not positive.
\<close>

datatype entry = Fin real | NaN

fun lift1 :: "(real \<Rightarrow> real) \<Rightarrow> entry \<Rightarrow> entry" where
  "lift1 f (Fin x) = Fin (f x)"
| "lift1 f NaN = NaN"

fun lift2 :: "(real \<Rightarrow> real \<Rightarrow> real) \<Rightarrow> entry \<Rightarrow> entry \<Rightarrow> entry" where
  "lift2 f (Fin x) (Fin y) = Fin (f x y)"
| "lift2 f u v = NaN"

fun np_power :: "entry \<Rightarrow> int \<Rightarrow> entry" where
  "np_power (Fin x) n = Fin (power_int x n)"
| "np_power NaN n = (if n = 0 then Fin 1 else NaN)"

fun entry_sum :: "entry list \<Rightarrow> entry" where
  "entry_sum [] = Fin 0"
| "entry_sum (v # vs) = lift2 (+) v (entry_sum vs)"

text \<open>The comparisons \<^verbatim>\<open>v > c\<close> and \<^verbatim>\<open>v >= c\<close> of an entry with a number.\<close>

fun entry_gt :: "entry \<Rightarrow> real \<Rightarrow> bool" where
  "entry_gt (Fin x) c = (c < x)"
| "entry_gt NaN c = False"

fun entry_ge :: "entry \<Rightarrow> real \<Rightarrow> bool" where
  "entry_ge (Fin x) c = (c \<le> x)"
| "entry_ge NaN c = False"

subsection \<open>Arrays of the backend: a shape and a row-major buffer\<close>

record ndarray =
  shape :: "nat list"
  data :: "entry list"

definition wf_array :: "ndarray \<Rightarrow> bool" where
  "wf_array a \<longleftrightarrow> length (data a) = prod_list (shape a)"

text \<open>Position of a multi-index in the row-major buffer, and back.\<close>

fun ravel :: "nat list \<Rightarrow> nat list \<Rightarrow> nat" where
  "ravel (n # s) (i # idx) = i * prod_list s + ravel s idx"
| "ravel s idx = 0"

fun unravel :: "nat list \<Rightarrow> nat \<Rightarrow> nat list" where
  "unravel [] k = []"
| "unravel (n # s) k = (k div prod_list s) # unravel s (k mod prod_list s)"

definition valid_index :: "nat list \<Rightarrow> nat list \<Rightarrow> bool" where
  "valid_index s idx \<longleftrightarrow> list_all2 (\<lambda>i n. i < n) idx s"

definition indices :: "nat list \<Rightarrow> nat list list" where
  "indices s = map (unravel s) [0..<prod_list s]"

definition item :: "ndarray \<Rightarrow> nat list \<Rightarrow> entry" where
  "item a idx = data a ! ravel (shape a) idx"

definition tabulate :: "nat list \<Rightarrow> (nat list \<Rightarrow> entry) \<Rightarrow> ndarray" where
  "tabulate s f = \<lparr>shape = s, data = map f (indices s)\<rparr>"

definition map_array :: "(entry \<Rightarrow> entry) \<Rightarrow> ndarray \<Rightarrow> ndarray" where
  "map_array f a = a\<lparr>data := map f (data a)\<rparr>"

subsection \<open>Broadcasting\<close>

text \<open>
  Shapes are aligned from the right; \<open>bc_rev\<close> works on the reversed shapes.  Two sizes
  are compatible when they are equal or one of them is 1.
\<close>

fun bc_rev :: "nat list \<Rightarrow> nat list \<Rightarrow> nat list option" where
  "bc_rev [] ys = Some ys"
| "bc_rev (x # xs) [] = Some (x # xs)"
| "bc_rev (x # xs) (y # ys) =
     (if x = y \<or> y = 1 then map_option ((#) x) (bc_rev xs ys)
      else if x = 1 then map_option ((#) y) (bc_rev xs ys)
      else None)"

definition broadcast_shapes :: "nat list \<Rightarrow> nat list \<Rightarrow> nat list option" where
  "broadcast_shapes s t = map_option rev (bc_rev (rev s) (rev t))"

text \<open>The index of the source entry that a broadcast result reads at index \<open>idx\<close>.\<close>

definition bcast_index :: "nat list \<Rightarrow> nat list \<Rightarrow> nat list" where
  "bcast_index s idx =
     map2 (\<lambda>n i. if n = 1 then 0 else i) s (drop (length idx - length s) idx)"

definition ewise :: "(entry \<Rightarrow> entry \<Rightarrow> entry) \<Rightarrow> ndarray \<Rightarrow> ndarray \<Rightarrow> error + ndarray" where
  "ewise f a b =
     (case broadcast_shapes (shape a) (shape b) of
        None \<Rightarrow> Inl ValueError
      | Some s \<Rightarrow> Inr (tabulate s (\<lambda>idx. f (item a (bcast_index (shape a) idx))
                                         (item b (bcast_index (shape b) idx)))))"

subsection \<open>The backend functions the operators call\<close>

text \<open>An axis may be given from the end (negative); out of range it is an error.\<close>

definition normalize_axis :: "nat \<Rightarrow> int \<Rightarrow> error + nat" where
  "normalize_axis n ax =
     (if - int n \<le> ax \<and> ax < int n then Inr (nat (if ax < 0 then ax + int n else ax))
      else Inl AxisError)"

definition swap :: "nat \<Rightarrow> nat \<Rightarrow> 'a list \<Rightarrow> 'a list" where
  "swap i j xs = xs[i := xs ! j, j := xs ! i]"

definition np_swapaxes :: "ndarray \<Rightarrow> int \<Rightarrow> int \<Rightarrow> error + ndarray" where
  "np_swapaxes a axis1 axis2 =
     bind_r (normalize_axis (length (shape a)) axis1) (\<lambda>i.
     bind_r (normalize_axis (length (shape a)) axis2) (\<lambda>j.
       Inr (tabulate (swap i j (shape a)) (\<lambda>idx. item a (swap i j idx)))))"

text \<open>
  The target of a reshape may leave one size open, written as a negative number (by
  custom -1); the open size is the quotient of the element count by the product of the
  other sizes.  Two negative sizes are an error.
\<close>

definition resolve_shape :: "nat \<Rightarrow> int list \<Rightarrow> nat list option" where
  "resolve_shape n tgt =
     (if filter (\<lambda>d. d < 0) tgt = [] then
        (if prod_list (map nat tgt) = n then Some (map nat tgt) else None)
      else if length (filter (\<lambda>d. d < 0) tgt) = 1 then
        (let k = prod_list (map nat (filter (\<lambda>d. 0 \<le> d) tgt))
         in if k = 0 \<or> n mod k \<noteq> 0 then None
            else Some (map (\<lambda>d. if d < 0 then n div k else nat d) tgt))
      else None)"

definition np_reshape :: "ndarray \<Rightarrow> int list \<Rightarrow> error + ndarray" where
  "np_reshape a tgt =
     (case resolve_shape (prod_list (shape a)) tgt of
        None \<Rightarrow> Inl ValueError
      | Some s \<Rightarrow> Inr \<lparr>shape = s, data = data a\<rparr>)"

definition broadcastable_to :: "nat list \<Rightarrow> nat list \<Rightarrow> bool" where
  "broadcastable_to s t \<longleftrightarrow>
     length s \<le> length t \<and>
     list_all2 (\<lambda>n m. n = m \<or> n = 1) s (drop (length t - length s) t)"

definition np_broadcast_to :: "ndarray \<Rightarrow> int list \<Rightarrow> error + ndarray" where
  "np_broadcast_to a tgt =
     (if \<exists>d \<in> set tgt. d < 0 then Inl ValueError
      else if broadcastable_to (shape a) (map nat tgt)
        then Inr (tabulate (map nat tgt) (\<lambda>idx. item a (bcast_index (shape a) idx)))
        else Inl ValueError)"

definition normalize_axes :: "nat \<Rightarrow> int list \<Rightarrow> error + nat list" where
  "normalize_axes n axs =
     bind_r (collect (map (normalize_axis n) axs))
       (\<lambda>ks. if distinct ks then Inr ks else Inl ValueError)"

definition remove_axes :: "nat list \<Rightarrow> 'a list \<Rightarrow> 'a list" where
  "remove_axes ks xs = map snd (filter (\<lambda>p. fst p \<notin> set ks) (enumerate 0 xs))"

definition np_sum :: "ndarray \<Rightarrow> int list option \<Rightarrow> error + ndarray" where
  "np_sum a axes =
     (case axes of
        None \<Rightarrow> Inr \<lparr>shape = [], data = [entry_sum (data a)]\<rparr>
      | Some axs \<Rightarrow>
          bind_r (normalize_axes (length (shape a)) axs) (\<lambda>ks.
            Inr (tabulate (remove_axes ks (shape a))
                  (\<lambda>oidx. entry_sum (map (item a)
                     (filter (\<lambda>idx. remove_axes ks idx = oidx) (indices (shape a))))))))"

text \<open>
  Matrix product: a one-dimensional operand is a row (on the left) or a column (on the
  right) whose added axis is dropped from the result; all axes before the last two are
  batch axes and broadcast against each other.
\<close>

definition np_matmul :: "ndarray \<Rightarrow> ndarray \<Rightarrow> error + ndarray" where
  "np_matmul a b =
     (if shape a = [] \<or> shape b = [] then Inl ValueError
      else
        let sa = (if length (shape a) = 1 then 1 # shape a else shape a);
            sb = (if length (shape b) = 1 then shape b @ [1] else shape b);
            ba = butlast (butlast sa);
            bb = butlast (butlast sb);
            a2 = \<lparr>shape = sa, data = data a\<rparr>;
            b2 = \<lparr>shape = sb, data = data b\<rparr>
        in if last sa \<noteq> last (butlast sb) then Inl ValueError
           else case broadcast_shapes ba bb of
                  None \<Rightarrow> Inl ValueError
                | Some bt \<Rightarrow>
                    Inr \<lparr>shape = bt @ (if length (shape a) = 1 then [] else [last (butlast sa)])
                                   @ (if length (shape b) = 1 then [] else [last sb]),
                         data = map (\<lambda>idx. entry_sum (map (\<lambda>l. lift2 (*)
                                    (item a2 (bcast_index ba (take (length bt) idx)
                                                @ [idx ! length bt, l]))
                                    (item b2 (bcast_index bb (take (length bt) idx)
                                                @ [l, idx ! Suc (length bt)])))
                                  [0..<last sa]))
                                (indices (bt @ [last (butlast sa), last sb]))\<rparr>)"

text \<open>Logarithm and exponential of a number; they are not computed by evaluation.\<close>

definition np_log :: "real \<Rightarrow> real" where
  "np_log x = ln x"

definition np_exp :: "real \<Rightarrow> real" where
  "np_exp x = exp x"

declare np_log_def [code del]
declare np_exp_def [code del]

definition np_maximum :: "ndarray \<Rightarrow> ndarray \<Rightarrow> error + ndarray" where
  "np_maximum a b = ewise (lift2 max) a b"

subsection \<open>Operators and their forward computation\<close>

datatype op =
    EWiseAdd
  | AddScalar real
  | EWiseMul
  | MulScalar real
  | PowerScalar int
  | EWiseDiv
  | DivScalar real
  | Transpose "(int \<times> int) option"
  | Reshape "int list"
  | BroadcastTo "int list"
  | Summation "int list option"
  | MatMul
  | Negate
  | Log
  | Exp
  | ReLU

text \<open>
  \<^verbatim>\<open>Summation.__init__\<close> takes no axes, one integer or a tuple, and stores a tuple for
  an integer.
\<close>

datatype axes_arg = NoAxes | IntAxis int | TupleAxes "int list"

fun Summation_init :: "axes_arg \<Rightarrow> op" where
  "Summation_init NoAxes = Summation None"
| "Summation_init (IntAxis i) = Summation (Some [i])"
| "Summation_init (TupleAxes axs) = Summation (Some axs)"

text \<open>
  \<open>compute\<close> takes the realized inputs; a call with another number of arguments than the
  method has parameters is a TypeError.
\<close>

fun compute :: "op \<Rightarrow> ndarray list \<Rightarrow> error + ndarray" where
  "compute EWiseAdd [a, b] = ewise (lift2 (+)) a b"
| "compute (AddScalar s) [a] = Inr (map_array (lift1 (\<lambda>x. x + s)) a)"
| "compute EWiseMul [a, b] = ewise (lift2 (*)) a b"
| "compute (MulScalar s) [a] = Inr (map_array (lift1 (\<lambda>x. x * s)) a)"
| "compute (PowerScalar s) [a] = Inr (map_array (\<lambda>v. np_power v s) a)"
| "compute EWiseDiv [a, b] = ewise (lift2 (/)) a b"
| "compute (DivScalar s) [a] = Inr (map_array (lift1 (\<lambda>x. x / s)) a)"
| "compute (Transpose axes) [a] =
     (case (case axes of Some p \<Rightarrow> p | None \<Rightarrow> (-2, -1)) of
        (axis1, axis2) \<Rightarrow> np_swapaxes a axis1 axis2)"
| "compute (Reshape s) [a] = np_reshape a s"
| "compute (BroadcastTo s) [a] = np_broadcast_to a s"
| "compute (Summation axes) [a] = np_sum a axes"
| "compute MatMul [a, b] = np_matmul a b"
| "compute Negate [a] = Inr (map_array (lift1 uminus) a)"
| "compute Log [a] = Inr (map_array (lift1 np_log) a)"
| "compute Exp [a] = Inr (map_array (lift1 np_exp) a)"
| "compute ReLU [a] = np_maximum a \<lparr>shape = [1], data = [Fin 0]\<rparr>"
| "compute f args = Inl TypeError"

subsection \<open>Graph nodes\<close>

text \<open>
  Modelled from the spec: the node type \<^verbatim>\<open>Tensor\<close> of \<^verbatim>\<open>autograd.py\<close>, which is not in
  the source file.  A node is a leaf holding an array, or records an operator and its
  ordered input nodes; its value is the operator's \<open>compute\<close> on the values of the inputs,
  and its shape is the shape of its value.  A node whose value cannot be computed has
  the backend's error for a value and for a shape.
\<close>

datatype tensor = Const ndarray | Apply op "tensor list"

fun inputs :: "tensor \<Rightarrow> tensor list" where
  "inputs (Const a) = []"
| "inputs (Apply f ts) = ts"

fun realize :: "tensor \<Rightarrow> error + ndarray" where
  "realize (Const a) = Inr a"
| "realize (Apply f ts) = bind_r (collect (map realize ts)) (compute f)"

definition shape_of :: "tensor \<Rightarrow> error + nat list" where
  "shape_of t = bind_r (realize t) (\<lambda>a. Inr (shape a))"

text \<open>
  Modelled from the spec: the arithmetic operators of \<^verbatim>\<open>Tensor\<close> (\<^verbatim>\<open>*\<close>, \<^verbatim>\<open>/\<close>, \<^verbatim>\<open>**\<close>,
  unary \<^verbatim>\<open>-\<close>), which \<^verbatim>\<open>autograd.py\<close> defines and the gradient rules use.  Between two
  nodes they apply the elementwise operator, between a node and a number the scalar one.
\<close>

definition tensor_mul :: "tensor \<Rightarrow> tensor \<Rightarrow> tensor" where
  "tensor_mul a b = Apply EWiseMul [a, b]"

definition tensor_mul_scalar :: "tensor \<Rightarrow> real \<Rightarrow> tensor" where
  "tensor_mul_scalar a s = Apply (MulScalar s) [a]"

definition tensor_div :: "tensor \<Rightarrow> tensor \<Rightarrow> tensor" where
  "tensor_div a b = Apply EWiseDiv [a, b]"

definition tensor_div_scalar :: "tensor \<Rightarrow> real \<Rightarrow> tensor" where
  "tensor_div_scalar a s = Apply (DivScalar s) [a]"

definition tensor_pow :: "tensor \<Rightarrow> int \<Rightarrow> tensor" where
  "tensor_pow a s = Apply (PowerScalar s) [a]"

definition tensor_neg :: "tensor \<Rightarrow> tensor" where
  "tensor_neg a = Apply Negate [a]"

subsection \<open>The free functions of the module\<close>

definition add :: "tensor \<Rightarrow> tensor \<Rightarrow> tensor" where
  "add a b = Apply EWiseAdd [a, b]"

definition add_scalar :: "tensor \<Rightarrow> real \<Rightarrow> tensor" where
  "add_scalar a scalar = Apply (AddScalar scalar) [a]"

definition multiply :: "tensor \<Rightarrow> tensor \<Rightarrow> tensor" where
  "multiply a b = Apply EWiseMul [a, b]"

definition mul_scalar :: "tensor \<Rightarrow> real \<Rightarrow> tensor" where
  "mul_scalar a scalar = Apply (MulScalar scalar) [a]"

definition power_scalar :: "tensor \<Rightarrow> int \<Rightarrow> tensor" where
  "power_scalar a scalar = Apply (PowerScalar scalar) [a]"

definition divide_t :: "tensor \<Rightarrow> tensor \<Rightarrow> tensor" where
  "divide_t a b = Apply EWiseDiv [a, b]"

definition divide_scalar :: "tensor \<Rightarrow> real \<Rightarrow> tensor" where
  "divide_scalar a scalar = Apply (DivScalar scalar) [a]"

definition transpose_t :: "tensor \<Rightarrow> (int \<times> int) option \<Rightarrow> tensor" where
  "transpose_t a axes = Apply (Transpose axes) [a]"

definition reshape :: "tensor \<Rightarrow> int list \<Rightarrow> tensor" where
  "reshape a s = Apply (Reshape s) [a]"

definition broadcast_to :: "tensor \<Rightarrow> int list \<Rightarrow> tensor" where
  "broadcast_to a s = Apply (BroadcastTo s) [a]"

definition summation :: "tensor \<Rightarrow> axes_arg \<Rightarrow> tensor" where
  "summation a axes = Apply (Summation_init axes) [a]"

definition matmul :: "tensor \<Rightarrow> tensor \<Rightarrow> tensor" where
  "matmul a b = Apply MatMul [a, b]"

definition negate :: "tensor \<Rightarrow> tensor" where
  "negate a = Apply Negate [a]"

definition log_t :: "tensor \<Rightarrow> tensor" where
  "log_t a = Apply Log [a]"

definition exp_t :: "tensor \<Rightarrow> tensor" where
  "exp_t a = Apply Exp [a]"

definition relu :: "tensor \<Rightarrow> tensor" where
  "relu a = Apply ReLU [a]"

subsection \<open>The backward rules\<close>

text \<open>
  A rule returns one node or a tuple of nodes.  \<^verbatim>\<open>lhs, rhs = node.inputs\<close> is a
  ValueError unless the node has two inputs, \<^verbatim>\<open>node.inputs[0]\<close> an IndexError when it has
  none, and reading the shape of a node fails when its value cannot be computed.
\<close>

datatype grad = One tensor | Many "tensor list"

definition unpack2 :: "tensor \<Rightarrow> (tensor \<Rightarrow> tensor \<Rightarrow> error + 'a) \<Rightarrow> error + 'a" where
  "unpack2 node k = (case inputs node of [lhs, rhs] \<Rightarrow> k lhs rhs | _ \<Rightarrow> Inl ValueError)"

definition input0 :: "tensor \<Rightarrow> error + tensor" where
  "input0 node = (case inputs node of [] \<Rightarrow> Inl IndexError | a # _ \<Rightarrow> Inr a)"

text \<open>The list comprehension of \<^verbatim>\<open>BroadcastTo.gradient\<close>.\<close>

definition broadcast_axes :: "int list \<Rightarrow> nat list \<Rightarrow> nat list" where
  "broadcast_axes tgt in_shape =
     (let unsqueezed = replicate (length tgt - length in_shape) 1 @ in_shape
      in filter (\<lambda>i. tgt ! i \<noteq> int (unsqueezed ! i)) [0..<length tgt])"

text \<open>The loop of \<^verbatim>\<open>Summation.gradient\<close> over \<^verbatim>\<open>out_shape\<close>, which starts as all ones.\<close>

definition summation_out_shape :: "int list option \<Rightarrow> nat list \<Rightarrow> nat list" where
  "summation_out_shape axes in_shape =
     (case axes of
        None \<Rightarrow> replicate (length in_shape) 1
      | Some axs \<Rightarrow>
          fold (\<lambda>i out_shape. if int i \<notin> set axs then out_shape[i := in_shape ! i]
                               else out_shape)
               [0..<length in_shape] (replicate (length in_shape) 1))"

fun gradient :: "op \<Rightarrow> tensor \<Rightarrow> tensor \<Rightarrow> error + grad" where
  "gradient EWiseAdd out_grad node = Inr (Many [out_grad, out_grad])"
| "gradient (AddScalar s) out_grad node = Inr (One out_grad)"
| "gradient EWiseMul out_grad node =
     unpack2 node (\<lambda>lhs rhs. Inr (Many [tensor_mul out_grad rhs, tensor_mul out_grad lhs]))"
| "gradient (MulScalar s) out_grad node = Inr (Many [tensor_mul_scalar out_grad s])"
| "gradient (PowerScalar s) out_grad node =
     bind_r (input0 node) (\<lambda>a.
       Inr (One (tensor_mul (tensor_mul_scalar out_grad (of_int s)) (tensor_pow a (s - 1)))))"
| "gradient EWiseDiv out_grad node =
     unpack2 node (\<lambda>lhs rhs.
       Inr (Many [tensor_div out_grad rhs,
                  tensor_div (tensor_mul (tensor_neg out_grad) lhs) (tensor_pow rhs 2)]))"
| "gradient (DivScalar s) out_grad node = Inr (One (tensor_div_scalar out_grad s))"
| "gradient (Transpose axes) out_grad node = Inr (One (transpose_t out_grad axes))"
| "gradient (Reshape s) out_grad node =
     bind_r (input0 node) (\<lambda>a. bind_r (shape_of a) (\<lambda>in_shape.
       Inr (One (reshape out_grad (map int in_shape)))))"
| "gradient (BroadcastTo s) out_grad node =
     bind_r (input0 node) (\<lambda>a. bind_r (shape_of a) (\<lambda>in_shape.
       Inr (One (reshape (summation out_grad (TupleAxes (map int (broadcast_axes s in_shape))))
                         (map int in_shape)))))"
| "gradient (Summation axes) out_grad node =
     bind_r (input0 node) (\<lambda>a. bind_r (shape_of a) (\<lambda>in_shape.
       Inr (One (broadcast_to (reshape out_grad (map int (summation_out_shape axes in_shape)))
                              (map int in_shape)))))"
| "gradient MatMul out_grad node =
     unpack2 node (\<lambda>lhs rhs.
       let grad_1 = matmul out_grad (transpose_t rhs None);
           grad_2 = matmul (transpose_t lhs None) out_grad
       in bind_r (shape_of grad_1) (\<lambda>s1. bind_r (shape_of lhs) (\<lambda>sl.
          bind_r (shape_of grad_2) (\<lambda>s2. bind_r (shape_of rhs) (\<lambda>sr.
            let batch_1 = int (length s1) - int (length sl);
                batch_2 = int (length s2) - int (length sr)
            in Inr (Many
                 [if batch_1 > 0
                    then summation grad_1 (TupleAxes (map int [0..<nat batch_1]))
                    else grad_1,
                  if batch_2 > 0
                    then summation grad_2 (TupleAxes (map int [0..<nat batch_2]))
                    else grad_2]))))))"
| "gradient Negate out_grad node = Inr (One (negate out_grad))"
| "gradient Log out_grad node =
     bind_r (input0 node) (\<lambda>a. Inr (One (tensor_div out_grad a)))"
| "gradient Exp out_grad node =
     bind_r (input0 node) (\<lambda>a. Inr (One (tensor_mul out_grad (exp_t a))))"
| "gradient ReLU out_grad node =
     bind_r (input0 node) (\<lambda>a. bind_r (realize a) (\<lambda>input.
       Inr (One (tensor_mul out_grad
                   (Const (map_array (\<lambda>v. if entry_gt v 0 then Fin 1 else Fin 0)
                             input))))))"

subsection \<open>Arity, and the applications whose shapes the backward rules restore\<close>

text \<open>The number of arrays that an operator's \<open>compute\<close> takes.\<close>

fun arity :: "op \<Rightarrow> nat" where
  "arity EWiseAdd = 2"
| "arity EWiseMul = 2"
| "arity EWiseDiv = 2"
| "arity MatMul = 2"
| "arity f = 1"

text \<open>
  Modelled from the spec: the backward driver of \<^verbatim>\<open>autograd.py\<close>, which is not in the
  source file, takes the result of a rule as an ordered sequence of nodes, one per input;
  a single node stands for the sequence with that node alone.
\<close>

fun grad_nodes :: "grad \<Rightarrow> tensor list" where
  "grad_nodes (One t) = [t]"
| "grad_nodes (Many ts) = ts"

text \<open>
  The order of the results.  \<open>spec_rule2\<close> follows the words of the specification, not
  the code: it lists the rules of the operators with two inputs as sections 4.1 and 4.3
  of the specification tabulate them, for the inputs \<open>a\<close> and \<open>b\<close> and the output
  gradient \<open>g\<close>, first the gradient with respect to \<open>a\<close>, then the gradient with respect
  to \<open>b\<close>; the code is compared with it in \<open>gradient_order\<close>.  Add:
  \<open>g\<close> and \<open>g\<close>.  Mul: \<open>g b\<close> and \<open>g a\<close>.  Div: \<open>g / b\<close> and \<open>- g a / b\<^sup>2\<close>, where it is
  \<open>g\<close> that is negated.  MatMul: \<open>g @ transpose(b)\<close> and \<open>transpose(a) @ g\<close>, each summed
  over its leading axes, as many as its rank exceeds the rank of the operand.
\<close>

definition sum_leading :: "tensor \<Rightarrow> tensor \<Rightarrow> tensor" where
  "sum_leading t operand =
     (case (shape_of t, shape_of operand) of
        (Inr st, Inr so) \<Rightarrow>
          if length so < length st
          then summation t (TupleAxes (map int [0..<length st - length so]))
          else t
      | _ \<Rightarrow> t)"

fun spec_rule2 :: "op \<Rightarrow> tensor \<Rightarrow> tensor \<Rightarrow> tensor \<Rightarrow> tensor list" where
  "spec_rule2 EWiseAdd g a b = [g, g]"
| "spec_rule2 EWiseMul g a b = [tensor_mul g b, tensor_mul g a]"
| "spec_rule2 EWiseDiv g a b =
     [tensor_div g b, tensor_div (tensor_mul (tensor_neg g) a) (tensor_pow b 2)]"
| "spec_rule2 MatMul g a b =
     [sum_leading (matmul g (transpose_t b None)) a,
      sum_leading (matmul (transpose_t a None) g) b]"
| "spec_rule2 f g a b = []"

text \<open>
  The backward rules undo a change of shape only where the operator is one that changes
  shapes.  The elementwise rules do not reduce over axes that the backend broadcast, the
  rule of MatMul reduces leading batch axes only, the rule of Summation finds the reduced
  axes only when they are given from the front, and ReLU keeps the shape of inputs with at
  least one axis.  \<open>restoring\<close> holds for the input shapes of an application within
  these limits.
\<close>

fun restoring :: "op \<Rightarrow> nat list list \<Rightarrow> bool" where
  "restoring EWiseAdd [s, t] = (s = t)"
| "restoring EWiseMul [s, t] = (s = t)"
| "restoring EWiseDiv [s, t] = (s = t)"
| "restoring MatMul [s, t] =
     (2 \<le> length s \<and> 2 \<le> length t \<and>
      (case broadcast_shapes (butlast (butlast s)) (butlast (butlast t)) of
         None \<Rightarrow> False
       | Some bt \<Rightarrow>
           drop (length bt - length (butlast (butlast s))) bt = butlast (butlast s) \<and>
           drop (length bt - length (butlast (butlast t))) bt = butlast (butlast t)))"
| "restoring (Summation axes) [s] =
     (case axes of None \<Rightarrow> True | Some axs \<Rightarrow> list_all (\<lambda>ax. 0 \<le> ax) axs)"
| "restoring ReLU [s] = (s \<noteq> [])"
| "restoring f ss = True"

section \<open>Properties\<close>

subsection \<open>Index arithmetic\<close>

lemma valid_index_Nil [simp]: "valid_index [] idx \<longleftrightarrow> idx = []"
  by (simp add: valid_index_def)

lemma valid_index_Cons:
  "valid_index (n # s) idx \<longleftrightarrow> (\<exists>i r. idx = i # r \<and> i < n \<and> valid_index s r)"
  by (cases idx) (auto simp: valid_index_def)

lemma valid_index_length: "valid_index s idx \<Longrightarrow> length idx = length s"
  by (simp add: valid_index_def list_all2_lengthD)

lemma valid_index_nth: "valid_index s idx \<Longrightarrow> k < length s \<Longrightarrow> idx ! k < s ! k"
  by (simp add: valid_index_def list_all2_conv_all_nth)

lemma valid_indexI:
  "length idx = length s \<Longrightarrow> (\<And>k. k < length s \<Longrightarrow> idx ! k < s ! k) \<Longrightarrow> valid_index s idx"
  by (simp add: valid_index_def list_all2_conv_all_nth)

lemma div_less_of_less_mult:
  fixes k :: nat
  assumes "k < n * p"
  shows "k div p < n"
  using assms by (metis less_mult_imp_div_less mult.commute)

lemma valid_unravel: "k < prod_list s \<Longrightarrow> valid_index s (unravel s k)"
proof (induction s arbitrary: k)
  case Nil
  then show ?case by simp
next
  case (Cons n s)
  from Cons.prems have pos: "0 < prod_list s"
    by (cases "prod_list s = 0") auto
  from Cons.prems have "k div prod_list s < n"
    by (simp add: div_less_of_less_mult)
  moreover have "valid_index s (unravel s (k mod prod_list s))"
    using pos by (intro Cons.IH) simp
  ultimately show ?case by (simp add: valid_index_Cons)
qed

lemma ravel_unravel: "k < prod_list s \<Longrightarrow> ravel s (unravel s k) = k"
proof (induction s arbitrary: k)
  case Nil
  then show ?case by simp
next
  case (Cons n s)
  from Cons.prems have pos: "0 < prod_list s"
    by (cases "prod_list s = 0") auto
  then have "ravel s (unravel s (k mod prod_list s)) = k mod prod_list s"
    by (intro Cons.IH) simp
  then show ?case by simp
qed

lemma ravel_less: "valid_index s idx \<Longrightarrow> ravel s idx < prod_list s"
proof (induction s arbitrary: idx)
  case Nil
  then show ?case by simp
next
  case (Cons n s)
  then obtain i r where idx: "idx = i # r" and i: "i < n" and r: "valid_index s r"
    by (auto simp: valid_index_Cons)
  have "ravel s r < prod_list s" using Cons.IH r by simp
  then have "i * prod_list s + ravel s r < (Suc i) * prod_list s" by simp
  also have "\<dots> \<le> n * prod_list s" using i by (intro mult_le_mono1) simp
  finally show ?case by (simp add: idx)
qed

lemma unravel_ravel: "valid_index s idx \<Longrightarrow> unravel s (ravel s idx) = idx"
proof (induction s arbitrary: idx)
  case Nil
  then show ?case by simp
next
  case (Cons n s)
  then obtain i r where idx: "idx = i # r" and i: "i < n" and r: "valid_index s r"
    by (auto simp: valid_index_Cons)
  have lt: "ravel s r < prod_list s" using r by (rule ravel_less)
  have "unravel s (ravel s r) = r" using Cons.IH r by simp
  with lt show ?case by (simp add: idx)
qed

lemma length_indices [simp]: "length (indices s) = prod_list s"
  by (simp add: indices_def)

lemma nth_indices: "k < prod_list s \<Longrightarrow> indices s ! k = unravel s k"
  by (simp add: indices_def)

lemma set_indices: "set (indices s) = {idx. valid_index s idx}"
proof (intro set_eqI iffI)
  fix idx assume "idx \<in> set (indices s)"
  then show "idx \<in> {idx. valid_index s idx}"
    by (auto simp: indices_def valid_unravel)
next
  fix idx assume "idx \<in> {idx. valid_index s idx}"
  then have v: "valid_index s idx" by simp
  then have "ravel s idx < prod_list s" by (rule ravel_less)
  moreover have "unravel s (ravel s idx) = idx" using v by (rule unravel_ravel)
  ultimately show "idx \<in> set (indices s)"
    unfolding indices_def by (metis atLeastLessThan_iff image_eqI set_map set_upt zero_le)
qed

lemma shape_tabulate [simp]: "shape (tabulate s f) = s"
  by (simp add: tabulate_def)

lemma data_tabulate: "data (tabulate s f) = map (\<lambda>k. f (unravel s k)) [0..<prod_list s]"
  by (simp add: tabulate_def indices_def)

lemma wf_tabulate [simp]: "wf_array (tabulate s f)"
  by (simp add: wf_array_def tabulate_def)

lemma item_tabulate: "valid_index s idx \<Longrightarrow> item (tabulate s f) idx = f idx"
  by (simp add: item_def data_tabulate ravel_less unravel_ravel)

lemma item_unravel: "k < prod_list (shape a) \<Longrightarrow> item a (unravel (shape a) k) = data a ! k"
  by (simp add: item_def ravel_unravel)

lemma tabulate_cong:
  "(\<And>idx. valid_index s idx \<Longrightarrow> f idx = g idx) \<Longrightarrow> tabulate s f = tabulate s g"
  by (simp add: tabulate_def set_indices)

lemma tabulate_item: "wf_array a \<Longrightarrow> tabulate (shape a) (item a) = a"
proof -
  assume wf: "wf_array a"
  have "map (\<lambda>k. item a (unravel (shape a) k)) [0..<prod_list (shape a)] = data a"
    using wf by (intro nth_equalityI) (simp_all add: wf_array_def item_unravel)
  then show ?thesis by (simp add: tabulate_def indices_def o_def)
qed

subsection \<open>Transpose\<close>

lemma length_swap [simp]: "length (swap i j xs) = length xs"
  by (simp add: swap_def)

lemma nth_swap:
  "i < length xs \<Longrightarrow> j < length xs \<Longrightarrow> k < length xs \<Longrightarrow>
   swap i j xs ! k = (if k = j then xs ! i else if k = i then xs ! j else xs ! k)"
  by (simp add: swap_def nth_list_update)

lemma swap_swap: "i < length xs \<Longrightarrow> j < length xs \<Longrightarrow> swap i j (swap i j xs) = xs"
  by (intro nth_equalityI) (auto simp: nth_swap)

lemma prod_list_swap:
  fixes s :: "nat list"
  assumes "i < length s" "j < length s"
  shows "prod_list (swap i j s) = prod_list s"
proof -
  have "mset (swap i j s) = mset s"
    unfolding swap_def using assms by (simp add: mset_swap)
  then have "prod_mset (mset (swap i j s)) = prod_mset (mset s)" by simp
  then show ?thesis by (simp add: prod_mset_prod_list)
qed

lemma valid_index_swap:
  assumes "i < length s" "j < length s" "valid_index s idx"
  shows "valid_index (swap i j s) (swap i j idx)"
proof (rule valid_indexI)
  show "length (swap i j idx) = length (swap i j s)"
    using assms by (simp add: valid_index_length)
next
  fix k assume "k < length (swap i j s)"
  then have k: "k < length s" by simp
  have len: "length idx = length s" using assms(3) by (rule valid_index_length)
  show "swap i j idx ! k < swap i j s ! k"
    using assms k len by (auto simp: nth_swap valid_index_nth)
qed

lemma normalize_axis_Inr:
  "normalize_axis n ax = Inr i \<Longrightarrow> i < n"
  by (auto simp: normalize_axis_def split: if_splits)

lemma normalize_axis_valid:
  "- int n \<le> ax \<Longrightarrow> ax < int n \<Longrightarrow> \<exists>i<n. normalize_axis n ax = Inr i"
  by (auto simp: normalize_axis_def)

lemma swapaxes_shape:
  "normalize_axis (length (shape a)) ax1 = Inr i \<Longrightarrow>
   normalize_axis (length (shape a)) ax2 = Inr j \<Longrightarrow>
   np_swapaxes a ax1 ax2 = Inr (tabulate (swap i j (shape a)) (\<lambda>idx. item a (swap i j idx)))"
  by (simp add: np_swapaxes_def bind_r_def)

lemma swapaxes_twice:
  assumes wf: "wf_array a"
    and i: "i < length (shape a)" and j: "j < length (shape a)"
  shows "tabulate (swap i j (swap i j (shape a)))
           (\<lambda>idx. item (tabulate (swap i j (shape a)) (\<lambda>idx'. item a (swap i j idx')))
                     (swap i j idx)) = a"
proof -
  let ?s = "shape a"
  have "tabulate ?s (\<lambda>idx. item (tabulate (swap i j ?s) (\<lambda>idx'. item a (swap i j idx')))
                     (swap i j idx)) = tabulate ?s (item a)"
  proof (rule tabulate_cong)
    fix idx assume v: "valid_index ?s idx"
    then have len: "length idx = length ?s" by (rule valid_index_length)
    have "valid_index (swap i j ?s) (swap i j idx)"
      using i j v by (rule valid_index_swap)
    then have "item (tabulate (swap i j ?s) (\<lambda>idx'. item a (swap i j idx'))) (swap i j idx)
               = item a (swap i j (swap i j idx))"
      by (rule item_tabulate)
    also have "\<dots> = item a idx" using i j len by (simp add: swap_swap)
    finally show "item (tabulate (swap i j ?s) (\<lambda>idx'. item a (swap i j idx'))) (swap i j idx)
                  = item a idx" .
  qed
  then show ?thesis using wf i j by (simp add: swap_swap tabulate_item)
qed

lemma swapaxes_involution:
  assumes wf: "wf_array a"
    and i: "normalize_axis (length (shape a)) ax1 = Inr i"
    and j: "normalize_axis (length (shape a)) ax2 = Inr j"
  shows "bind_r (np_swapaxes a ax1 ax2) (\<lambda>b. np_swapaxes b ax1 ax2) = Inr a"
proof -
  have il: "i < length (shape a)" and jl: "j < length (shape a)"
    using i j by (auto dest: normalize_axis_Inr)
  let ?b = "tabulate (swap i j (shape a)) (\<lambda>idx. item a (swap i j idx))"
  have b: "np_swapaxes a ax1 ax2 = Inr ?b" using i j by (rule swapaxes_shape)
  have "np_swapaxes ?b ax1 ax2
        = Inr (tabulate (swap i j (shape ?b)) (\<lambda>idx. item ?b (swap i j idx)))"
    by (rule swapaxes_shape) (simp_all add: i j)
  also have "\<dots> = Inr a" using swapaxes_twice [OF wf il jl] by simp
  finally show ?thesis by (simp add: b bind_r_def)
qed

text \<open>
  Claim C8.  Transposing twice with the same valid axis pair gives back the value of the
  input; without an axis pair the forward computation swaps axes -2 and -1; and the
  backward rule of a transpose is the same transpose applied to the output gradient.
\<close>

theorem transpose_self_inverse:
  assumes "realize x = Inr a" and "wf_array a"
    and "- int (length (shape a)) \<le> i" and "i < int (length (shape a))"
    and "- int (length (shape a)) \<le> j" and "j < int (length (shape a))"
  shows "realize (transpose_t (transpose_t x (Some (i, j))) (Some (i, j))) = Inr a
       \<and> realize (transpose_t x None) = realize (transpose_t x (Some (-2, -1)))
       \<and> gradient (Transpose axes) out_grad node = Inr (One (transpose_t out_grad axes))"
proof -
  obtain i' j' where i': "normalize_axis (length (shape a)) i = Inr i'"
    and j': "normalize_axis (length (shape a)) j = Inr j'"
    using assms(3-6) normalize_axis_valid by meson
  have "bind_r (np_swapaxes a i j) (\<lambda>b. np_swapaxes b i j) = Inr a"
    using assms(2) i' j' by (rule swapaxes_involution)
  then have "realize (transpose_t (transpose_t x (Some (i, j))) (Some (i, j))) = Inr a"
    using assms(1) by (auto simp: transpose_t_def bind_r_def split: sum.splits)
  moreover have "realize (transpose_t x None) = realize (transpose_t x (Some (-2, -1)))"
    by (cases "realize x") (simp_all add: transpose_t_def bind_r_def)
  ultimately show ?thesis by simp
qed

theorem transpose_self_inverse_witness:
  "realize (transpose_t (transpose_t (Const \<lparr>shape = [2,3], data = [Fin 1, Fin 2, Fin 3, Fin 4, Fin 5, Fin 6]\<rparr>) (Some (0, -1))) (Some (0, -1)))
     = Inr \<lparr>shape = [2,3], data = [Fin 1, Fin 2, Fin 3, Fin 4, Fin 5, Fin 6]\<rparr>
   \<and> realize (transpose_t (Const \<lparr>shape = [2,3], data = [Fin 1, Fin 2, Fin 3, Fin 4, Fin 5, Fin 6]\<rparr>) None)
     = Inr \<lparr>shape = [3,2], data = [Fin 1, Fin 4, Fin 2, Fin 5, Fin 3, Fin 6]\<rparr>"
  using transpose_self_inverse [of "Const \<lparr>shape = [2,3], data = [Fin 1, Fin 2, Fin 3, Fin 4, Fin 5, Fin 6]\<rparr>"
     "\<lparr>shape = [2,3], data = [Fin 1, Fin 2, Fin 3, Fin 4, Fin 5, Fin 6]\<rparr>" 0 "-1"]
  by (simp add: wf_array_def) code_simp

subsection \<open>Elementwise operators and ReLU\<close>

lemma bind_r_Inr [simp]: "bind_r (Inr v) f = f v"
  by (simp add: bind_r_def)

lemma bind_r_Inl [simp]: "bind_r (Inl e) f = Inl e"
  by (simp add: bind_r_def)

lemma bc_rev_same [simp]: "bc_rev xs xs = Some xs"
  by (induction xs) simp_all

lemma bc_rev_Nil2 [simp]: "bc_rev xs [] = Some xs"
  by (cases xs) simp_all

lemma broadcast_shapes_same [simp]: "broadcast_shapes s s = Some s"
  by (simp add: broadcast_shapes_def)

lemma broadcast_shapes_one:
  "broadcast_shapes s [Suc 0] = Some (if s = [] then [Suc 0] else s)"
proof (cases "rev s")
  case Nil
  then show ?thesis by (simp add: broadcast_shapes_def)
next
  case (Cons x xs)
  then have "s \<noteq> []" by auto
  moreover have "map_option rev (bc_rev (rev s) [Suc 0]) = Some s"
    using Cons by (simp add: rev_swap [symmetric])
  ultimately show ?thesis by (simp add: broadcast_shapes_def)
qed

lemma bcast_index_same: "valid_index s idx \<Longrightarrow> bcast_index s idx = idx"
proof -
  assume v: "valid_index s idx"
  then have len: "length idx = length s" by (rule valid_index_length)
  show ?thesis
    unfolding bcast_index_def using len
  proof (intro nth_equalityI)
    fix k assume "k < length (map2 (\<lambda>n i. if n = 1 then 0 else i) s (drop (length idx - length s) idx))"
    then have k: "k < length s" using len by simp
    have "idx ! k < s ! k" using v k by (rule valid_index_nth)
    then show "map2 (\<lambda>n i. if n = 1 then 0 else i) s (drop (length idx - length s) idx) ! k = idx ! k"
      using k len by auto
  qed simp
qed

lemma bcast_index_one:
  "idx \<noteq> [] \<Longrightarrow> bcast_index [Suc 0] idx = [0]"
proof -
  assume "idx \<noteq> []"
  then have "butlast idx @ [last idx] = idx" by simp
  then have "drop (length (butlast idx)) idx = [last idx]"
    by (metis append_eq_conv_conj)
  then have "drop (length idx - Suc 0) idx = [last idx]" by simp
  then show ?thesis by (simp add: bcast_index_def)
qed

lemma ewise_same_shape:
  assumes "wf_array a" "wf_array b" "shape a = shape b"
  shows "ewise f a b = Inr \<lparr>shape = shape a, data = map2 f (data a) (data b)\<rparr>"
proof -
  let ?s = "shape a"
  let ?P = "prod_list ?s"
  have la: "length (data a) = ?P" and lb: "length (data b) = ?P"
    using assms by (simp_all add: wf_array_def)
  have "map (\<lambda>k. f (item a (bcast_index ?s (unravel ?s k)))
                     (item b (bcast_index ?s (unravel ?s k)))) [0..<?P]
        = map2 f (data a) (data b)"
  proof (intro nth_equalityI)
    fix k assume "k < length (map (\<lambda>k. f (item a (bcast_index ?s (unravel ?s k)))
                     (item b (bcast_index ?s (unravel ?s k)))) [0..<?P])"
    then have k: "k < ?P" by simp
    then have "bcast_index ?s (unravel ?s k) = unravel ?s k"
      by (intro bcast_index_same valid_unravel)
    moreover have "item b (unravel ?s k) = data b ! k"
      using item_unravel [of k b] k assms(3) by simp
    ultimately show "map (\<lambda>k. f (item a (bcast_index ?s (unravel ?s k)))
                     (item b (bcast_index ?s (unravel ?s k)))) [0..<?P] ! k
          = map2 f (data a) (data b) ! k"
      using k la lb by (simp add: item_unravel)
  qed (simp add: la lb)
  then show ?thesis
    using assms(3) by (simp add: ewise_def tabulate_def indices_def o_def)
qed

lemma relu_compute:
  assumes wf: "wf_array a"
  shows "compute ReLU [a] = Inr \<lparr>shape = (if shape a = [] then [1] else shape a),
                                   data = map (\<lambda>v. lift2 max v (Fin 0)) (data a)\<rparr>"
proof (cases "shape a = []")
  case True
  then obtain x where x: "data a = [x]"
    using wf by (cases "data a") (auto simp: wf_array_def)
  show ?thesis
    using True x
    by (simp add: np_maximum_def ewise_def broadcast_shapes_one tabulate_def indices_def
        item_def bcast_index_def)
next
  case False
  let ?s = "shape a"
  let ?P = "prod_list ?s"
  let ?z = "\<lparr>shape = [1], data = [Fin 0]\<rparr>"
  have la: "length (data a) = ?P" using wf by (simp add: wf_array_def)
  have "map (\<lambda>k. lift2 max (item a (bcast_index ?s (unravel ?s k)))
                             (item ?z (bcast_index [1] (unravel ?s k)))) [0..<?P]
        = map (\<lambda>v. lift2 max v (Fin 0)) (data a)"
  proof (intro nth_equalityI)
    fix k assume "k < length (map (\<lambda>k. lift2 max (item a (bcast_index ?s (unravel ?s k)))
                             (item ?z (bcast_index [1] (unravel ?s k)))) [0..<?P])"
    then have k: "k < ?P" by simp
    then have "bcast_index ?s (unravel ?s k) = unravel ?s k"
      by (intro bcast_index_same valid_unravel)
    moreover have "unravel ?s k \<noteq> []" using False by (cases ?s) auto
    then have "bcast_index [1] (unravel ?s k) = [0]" by (simp add: bcast_index_one)
    moreover have "item ?z [0] = Fin 0" by (simp add: item_def)
    ultimately show "map (\<lambda>k. lift2 max (item a (bcast_index ?s (unravel ?s k)))
                             (item ?z (bcast_index [1] (unravel ?s k)))) [0..<?P] ! k
          = map (\<lambda>v. lift2 max v (Fin 0)) (data a) ! k"
      using k la by (simp add: item_unravel)
  qed (simp add: la)
  then show ?thesis
    using False
    by (simp add: np_maximum_def ewise_def broadcast_shapes_one tabulate_def indices_def o_def)
qed

lemma max_zero_twice: "lift2 max (lift2 max v (Fin 0)) (Fin 0) = lift2 max v (Fin 0)"
  by (cases v) simp_all

lemma max_zero_nonneg: "v \<noteq> NaN \<Longrightarrow> entry_ge (lift2 max v (Fin 0)) 0"
  by (cases v) simp_all

lemma realize_unary:
  "realize x = Inr a \<Longrightarrow> realize (Apply f [x]) = compute f [a]"
  by simp

lemma realize_binary:
  "realize x = Inr a \<Longrightarrow> realize y = Inr b \<Longrightarrow> realize (Apply f [x, y]) = compute f [a, b]"
  by simp

text \<open>
  Claim C10, as stated, fails on an array with a NaN entry: the maximum of NaN and 0 is
  NaN, which is not greater than or equal to 0.
\<close>

theorem relu_nan_entry:
  "realize (relu (Const \<lparr>shape = [2], data = [NaN, Fin 1]\<rparr>))
     = Inr \<lparr>shape = [2], data = [NaN, Fin 1]\<rparr>
   \<and> \<not> entry_ge (data \<lparr>shape = [2], data = [NaN, Fin 1]\<rparr> ! 0) 0"
  by code_simp

text \<open>
  Claim C10, amended.  The forward computation of ReLU replaces every entry by its maximum
  with 0, where a NaN stays NaN, and applying ReLU to the result gives the result again;
  when no entry of the input is NaN, every entry of the result is non-negative.  The
  result has the shape of the input, except that a zero-dimensional input gives a
  one-dimensional result with one entry, since the second operand of \<^verbatim>\<open>maximum\<close> is the
  list \<^verbatim>\<open>[0]\<close>.
\<close>

theorem relu_forward:
  assumes "realize x = Inr a" and "wf_array a"
  shows "\<exists>r. realize (relu x) = Inr r
           \<and> data r = map (\<lambda>v. lift2 max v (Fin 0)) (data a)
           \<and> shape r = (if shape a = [] then [1] else shape a)
           \<and> (NaN \<notin> set (data a) \<longrightarrow> (\<forall>v \<in> set (data r). entry_ge v 0))
           \<and> realize (relu (relu x)) = Inr r"
proof -
  let ?r = "\<lparr>shape = (if shape a = [] then [1] else shape a),
             data = map (\<lambda>v. lift2 max v (Fin 0)) (data a)\<rparr>"
  have r: "realize (relu x) = Inr ?r"
    using assms by (simp add: relu_def relu_compute del: compute.simps)
  have wfr: "wf_array ?r"
    using assms(2) by (simp add: wf_array_def)
  have "compute ReLU [?r] = Inr ?r"
    by (simp add: relu_compute [OF wfr] max_zero_twice del: compute.simps)
  then have rr: "realize (relu (relu x)) = Inr ?r"
    using r by (simp add: relu_def del: compute.simps)
  have "\<forall>v \<in> set (data ?r). entry_ge v 0" if "NaN \<notin> set (data a)"
  proof
    fix v assume "v \<in> set (data ?r)"
    then obtain u where u: "u \<in> set (data a)" and v: "v = lift2 max u (Fin 0)" by auto
    from u that have "u \<noteq> NaN" by auto
    then show "entry_ge v 0" unfolding v by (rule max_zero_nonneg)
  qed
  with r rr show ?thesis by (intro exI [of _ ?r]) simp
qed

theorem relu_forward_witness:
  "\<exists>r. realize (relu (Const \<lparr>shape = [2, 2], data = [Fin (-1), Fin 2, Fin 0, Fin (-4)]\<rparr>)) = Inr r
           \<and> data r = [Fin 0, Fin 2, Fin 0, Fin 0]
           \<and> shape r = [2, 2]
           \<and> (\<forall>v \<in> set (data r). entry_ge v 0)
           \<and> realize (relu (relu (Const \<lparr>shape = [2, 2],
                                            data = [Fin (-1), Fin 2, Fin 0, Fin (-4)]\<rparr>))) = Inr r"
proof -
  let ?a = "\<lparr>shape = [2, 2], data = [Fin (-1), Fin 2, Fin 0, Fin (-4)]\<rparr>"
  have h1: "realize (Const ?a) = Inr ?a" by simp
  have h2: "wf_array ?a" by (simp add: wf_array_def)
  have h3: "NaN \<notin> set (data ?a)" by simp
  from relu_forward [OF h1 h2] h3
  obtain r where "realize (relu (Const ?a)) = Inr r"
    "data r = map (\<lambda>v. lift2 max v (Fin 0)) (data ?a)"
    "shape r = (if shape ?a = [] then [1] else shape ?a)"
    "\<forall>v \<in> set (data r). entry_ge v 0"
    "realize (relu (relu (Const ?a))) = Inr r"
    by blast
  then show ?thesis by (intro exI [of _ r]) simp
qed

text \<open>
  Claim C7.  Where an entry of the input is exactly 0, the entry of relu's result is 0, and
  the mask that the backward rule multiplies the output gradient with is 0 there: the mask
  is 1 exactly at the entries that are strictly positive.
\<close>

theorem relu_boundary:
  assumes "realize x = Inr a" and "wf_array a"
    and "k < length (data a)" and "data a ! k = Fin 0"
  shows "\<exists>r m. realize (relu x) = Inr r \<and> data r ! k = Fin 0
           \<and> gradient ReLU out_grad (relu x) = Inr (One (tensor_mul out_grad (Const m)))
           \<and> shape m = shape a
           \<and> (\<forall>i < length (data a).
                 data m ! i = (if entry_gt (data a ! i) 0 then Fin 1 else Fin 0))
           \<and> data m ! k = Fin 0"
proof -
  let ?r = "\<lparr>shape = (if shape a = [] then [1] else shape a),
             data = map (\<lambda>v. lift2 max v (Fin 0)) (data a)\<rparr>"
  let ?m = "map_array (\<lambda>v. if entry_gt v 0 then Fin 1 else Fin 0) a"
  have "realize (relu x) = Inr ?r"
    using assms(1,2) by (simp add: relu_def relu_compute del: compute.simps)
  moreover have "data ?r ! k = Fin 0" using assms(3,4) by simp
  moreover have "gradient ReLU out_grad (relu x) = Inr (One (tensor_mul out_grad (Const ?m)))"
    using assms(1) by (simp add: relu_def input0_def)
  moreover have "shape ?m = shape a" by (simp add: map_array_def)
  moreover have "\<forall>i < length (data a).
                   data ?m ! i = (if entry_gt (data a ! i) 0 then Fin 1 else Fin 0)"
    by (simp add: map_array_def)
  moreover have "data ?m ! k = Fin 0" using assms(3,4) by (simp add: map_array_def)
  ultimately show ?thesis by blast
qed

theorem relu_boundary_witness:
  "\<exists>r m. realize (relu (Const \<lparr>shape = [3], data = [Fin (-2), Fin 0, Fin 5]\<rparr>)) = Inr r
       \<and> data r ! 1 = Fin 0
       \<and> gradient ReLU (Const \<lparr>shape = [3], data = [Fin 1, Fin 1, Fin 1]\<rparr>)
            (relu (Const \<lparr>shape = [3], data = [Fin (-2), Fin 0, Fin 5]\<rparr>))
          = Inr (One (tensor_mul (Const \<lparr>shape = [3], data = [Fin 1, Fin 1, Fin 1]\<rparr>) (Const m)))
       \<and> shape m = [3]
       \<and> data m ! 1 = Fin 0"
proof -
  let ?a = "\<lparr>shape = [3], data = [Fin (-2), Fin 0, Fin 5]\<rparr>"
  let ?g = "Const \<lparr>shape = [3], data = [Fin 1, Fin 1, Fin 1]\<rparr>"
  have h1: "realize (Const ?a) = Inr ?a" by simp
  have h2: "wf_array ?a" by (simp add: wf_array_def)
  have h3: "1 < length (data ?a)" by simp
  have h4: "data ?a ! 1 = Fin 0" by simp
  from relu_boundary [OF h1 h2 h3 h4, of ?g]
  obtain r m where "realize (relu (Const ?a)) = Inr r" "data r ! 1 = Fin 0"
    "gradient ReLU ?g (relu (Const ?a)) = Inr (One (tensor_mul ?g (Const m)))"
    "shape m = shape ?a" "data m ! 1 = Fin 0"
    by blast
  then show ?thesis by (intro exI [of _ r] exI [of _ m]) simp
qed

lemma shape_map_array [simp]: "shape (map_array f a) = shape a"
  by (simp add: map_array_def)

lemma data_map_array [simp]: "data (map_array f a) = map f (data a)"
  by (simp add: map_array_def)

lemma wf_map_array [simp]: "wf_array (map_array f a) = wf_array a"
  by (simp add: wf_array_def)

lemma div_neg_entry:
  "lift2 (/) (lift2 (*) (lift1 uminus g) x) (np_power y 2)
   = lift1 uminus (lift2 (/) (lift2 (*) g x) (np_power y 2))"
  by (cases g; cases x; cases y) simp_all

text \<open>
  Claim C6.  The backward rule of elementwise division returns two nodes: the output
  gradient divided by the denominator, and the negated output gradient times the numerator,
  divided by the square of the denominator.  For inputs of one shape, and at an entry where
  the denominator is not 0, their values are \<open>g / b\<close> and \<open>- (g * a / b\<^sup>2)\<close>, which are NaN
  when one of the entries is.
\<close>

theorem ewise_div_gradient:
  assumes "realize out_grad = Inr g" and "realize a = Inr x" and "realize b = Inr y"
    and "wf_array g" and "wf_array x" and "wf_array y"
    and "shape x = shape g" and "shape y = shape g"
    and "k < length (data g)" and "data y ! k \<noteq> Fin 0"
  shows "\<exists>va vb.
           gradient EWiseDiv out_grad (divide_t a b)
             = Inr (Many [tensor_div out_grad b,
                          tensor_div (tensor_mul (tensor_neg out_grad) a) (tensor_pow b 2)])
         \<and> realize (tensor_div out_grad b) = Inr va
         \<and> realize (tensor_div (tensor_mul (tensor_neg out_grad) a) (tensor_pow b 2)) = Inr vb
         \<and> shape va = shape x \<and> shape vb = shape y
         \<and> data va ! k = lift2 (/) (data g ! k) (data y ! k)
         \<and> data vb ! k = lift1 uminus (lift2 (/) (lift2 (*) (data g ! k) (data x ! k))
                                                (np_power (data y ! k) 2))
         \<and> (\<forall>gv xv yv. data g ! k = Fin gv \<and> data x ! k = Fin xv \<and> data y ! k = Fin yv \<longrightarrow>
                data va ! k = Fin (gv / yv) \<and> data vb ! k = Fin (- (gv * xv / yv\<^sup>2)))"
proof -
  have lens: "length (data x) = length (data g)" "length (data y) = length (data g)"
    using assms(4-8) by (simp_all add: wf_array_def)
  let ?va = "\<lparr>shape = shape g, data = map2 (lift2 (/)) (data g) (data y)\<rparr>"
  let ?n = "\<lparr>shape = shape g,
             data = map2 (lift2 (*)) (map (lift1 uminus) (data g)) (data x)\<rparr>"
  let ?p = "map_array (\<lambda>v. np_power v 2) y"
  let ?vb = "\<lparr>shape = shape g, data = map2 (lift2 (/)) (data ?n) (data ?p)\<rparr>"
  have g1: "gradient EWiseDiv out_grad (divide_t a b)
             = Inr (Many [tensor_div out_grad b,
                          tensor_div (tensor_mul (tensor_neg out_grad) a) (tensor_pow b 2)])"
    by (simp add: divide_t_def unpack2_def)
  have va: "realize (tensor_div out_grad b) = Inr ?va"
    using assms(1,3) ewise_same_shape [of g y "lift2 (/)"] assms(4,6,8)
    by (simp add: tensor_div_def)
  have n: "realize (tensor_mul (tensor_neg out_grad) a) = Inr ?n"
    using assms(1,2) ewise_same_shape [of "map_array (lift1 uminus) g" x "lift2 (*)"]
      assms(4,5,7)
    by (simp add: tensor_mul_def tensor_neg_def)
  have wfn: "wf_array ?n" using assms(4) lens by (simp add: wf_array_def)
  have vb: "realize (tensor_div (tensor_mul (tensor_neg out_grad) a) (tensor_pow b 2)) = Inr ?vb"
    using n assms(3) ewise_same_shape [of ?n ?p "lift2 (/)"] wfn assms(6,8)
    by (simp add: tensor_div_def tensor_pow_def tensor_mul_def tensor_neg_def)
  define va where "va = ?va"
  define vb where "vb = ?vb"
  have r1: "realize (tensor_div out_grad b) = Inr va"
    using va by (simp only: va_def)
  have r2: "realize (tensor_div (tensor_mul (tensor_neg out_grad) a) (tensor_pow b 2)) = Inr vb"
    using vb by (simp only: vb_def)
  have sh: "shape va = shape x" "shape vb = shape y"
    using assms(7,8) by (simp_all add: va_def vb_def)
  have ea: "data va ! k = lift2 (/) (data g ! k) (data y ! k)"
    using assms(9) lens by (simp add: va_def)
  have eb: "data vb ! k = lift1 uminus (lift2 (/) (lift2 (*) (data g ! k) (data x ! k))
                                              (np_power (data y ! k) 2))"
    using assms(9) lens by (simp add: vb_def div_neg_entry)
  have num: "\<forall>gv xv yv. data g ! k = Fin gv \<and> data x ! k = Fin xv \<and> data y ! k = Fin yv \<longrightarrow>
               data va ! k = Fin (gv / yv) \<and> data vb ! k = Fin (- (gv * xv / yv\<^sup>2))"
    unfolding ea eb by simp
  show ?thesis
    using g1 r1 r2 sh ea eb num by blast
qed

theorem ewise_div_gradient_witness:
  "\<exists>va vb.
     gradient EWiseDiv (Const \<lparr>shape = [2], data = [Fin 1, Fin 3]\<rparr>)
        (divide_t (Const \<lparr>shape = [2], data = [Fin 6, Fin 8]\<rparr>)
                  (Const \<lparr>shape = [2], data = [Fin 2, Fin 4]\<rparr>))
       = Inr (Many [tensor_div (Const \<lparr>shape = [2], data = [Fin 1, Fin 3]\<rparr>)
                               (Const \<lparr>shape = [2], data = [Fin 2, Fin 4]\<rparr>),
                    tensor_div (tensor_mul (tensor_neg (Const \<lparr>shape = [2], data = [Fin 1, Fin 3]\<rparr>))
                                           (Const \<lparr>shape = [2], data = [Fin 6, Fin 8]\<rparr>))
                               (tensor_pow (Const \<lparr>shape = [2], data = [Fin 2, Fin 4]\<rparr>) 2)])
   \<and> realize (tensor_div (Const \<lparr>shape = [2], data = [Fin 1, Fin 3]\<rparr>)
                         (Const \<lparr>shape = [2], data = [Fin 2, Fin 4]\<rparr>)) = Inr va
   \<and> realize (tensor_div (tensor_mul (tensor_neg (Const \<lparr>shape = [2], data = [Fin 1, Fin 3]\<rparr>))
                                     (Const \<lparr>shape = [2], data = [Fin 6, Fin 8]\<rparr>))
                         (tensor_pow (Const \<lparr>shape = [2], data = [Fin 2, Fin 4]\<rparr>) 2)) = Inr vb
   \<and> data va ! 1 = Fin (3 / 4)
   \<and> data vb ! 1 = Fin (- (3 / 2))"
proof -
  let ?g = "\<lparr>shape = [2], data = [Fin 1, Fin 3]\<rparr>"
  let ?x = "\<lparr>shape = [2], data = [Fin 6, Fin 8]\<rparr>"
  let ?y = "\<lparr>shape = [2], data = [Fin 2, Fin 4]\<rparr>"
  have r: "realize (Const ?g) = Inr ?g" "realize (Const ?x) = Inr ?x" "realize (Const ?y) = Inr ?y"
    by simp_all
  have wf: "wf_array ?g" "wf_array ?x" "wf_array ?y" by (simp_all add: wf_array_def)
  have sh: "shape ?x = shape ?g" "shape ?y = shape ?g" by simp_all
  have k: "1 < length (data ?g)" "data ?y ! 1 \<noteq> Fin 0" by simp_all
  have e: "data ?g ! 1 = Fin 3 \<and> data ?x ! 1 = Fin 8 \<and> data ?y ! 1 = Fin 4" by simp
  from ewise_div_gradient [OF r wf sh k]
  obtain va vb where
    "gradient EWiseDiv (Const ?g) (divide_t (Const ?x) (Const ?y))
       = Inr (Many [tensor_div (Const ?g) (Const ?y),
                    tensor_div (tensor_mul (tensor_neg (Const ?g)) (Const ?x))
                               (tensor_pow (Const ?y) 2)])"
    "realize (tensor_div (Const ?g) (Const ?y)) = Inr va"
    "realize (tensor_div (tensor_mul (tensor_neg (Const ?g)) (Const ?x))
                         (tensor_pow (Const ?y) 2)) = Inr vb"
    "\<forall>gv xv yv. data ?g ! 1 = Fin gv \<and> data ?x ! 1 = Fin xv \<and> data ?y ! 1 = Fin yv \<longrightarrow>
       data va ! 1 = Fin (gv / yv) \<and> data vb ! 1 = Fin (- (gv * xv / yv\<^sup>2))"
    by blast
  moreover from this(4) e
  have "data va ! 1 = Fin (3 / 4) \<and> data vb ! 1 = Fin (- (3 * 8 / 4\<^sup>2))" by blast
  ultimately show ?thesis by (intro exI [of _ va] exI [of _ vb]) (simp add: power2_eq_square)
qed

subsection \<open>Shapes of nodes\<close>

lemma collect_map_Inr:
  "(\<And>x. x \<in> set xs \<Longrightarrow> f x = Inr (g x)) \<Longrightarrow> collect (map f xs) = Inr (map g xs)"
  by (induction xs) simp_all

lemma shape_of_Const [simp]: "shape_of (Const a) = Inr (shape a)"
  by (simp add: shape_of_def)

lemma shape_of_map_sum: "shape_of t = map_sum id shape (realize t)"
  by (cases "realize t") (simp_all add: shape_of_def)

lemma shape_ofD: "shape_of t = Inr s \<Longrightarrow> \<exists>a. realize t = Inr a \<and> shape a = s"
  by (cases "realize t") (auto simp: shape_of_def)

lemma shape_of_Apply1:
  "realize x = Inr a \<Longrightarrow> shape_of (Apply f [x]) = map_sum id shape (compute f [a])"
  by (simp add: shape_of_map_sum del: compute.simps)

lemma shape_of_Apply2:
  "realize x = Inr a \<Longrightarrow> realize y = Inr b \<Longrightarrow>
   shape_of (Apply f [x, y]) = map_sum id shape (compute f [a, b])"
  by (simp add: shape_of_map_sum del: compute.simps)

lemma shape_ewise:
  "map_sum id shape (ewise f a b) =
     (case broadcast_shapes (shape a) (shape b) of None \<Rightarrow> Inl ValueError | Some u \<Rightarrow> Inr u)"
  by (simp add: ewise_def split: option.splits)

lemma shape_swapaxes:
  "map_sum id shape (np_swapaxes a ax1 ax2) =
     bind_r (normalize_axis (length (shape a)) ax1) (\<lambda>i.
     bind_r (normalize_axis (length (shape a)) ax2) (\<lambda>j. Inr (swap i j (shape a))))"
  by (simp add: np_swapaxes_def bind_r_def split: sum.splits)

lemma shape_reshape:
  "map_sum id shape (np_reshape a tgt) =
     (case resolve_shape (prod_list (shape a)) tgt of None \<Rightarrow> Inl ValueError | Some s \<Rightarrow> Inr s)"
  by (simp add: np_reshape_def split: option.splits)

lemma shape_broadcast_to:
  "map_sum id shape (np_broadcast_to a tgt) =
     (if (\<exists>d \<in> set tgt. d < 0) \<or> \<not> broadcastable_to (shape a) (map nat tgt)
      then Inl ValueError else Inr (map nat tgt))"
  by (simp add: np_broadcast_to_def)

lemma shape_sum:
  "map_sum id shape (np_sum a axes) =
     (case axes of None \<Rightarrow> Inr []
      | Some axs \<Rightarrow> bind_r (normalize_axes (length (shape a)) axs)
                      (\<lambda>ks. Inr (remove_axes ks (shape a))))"
  by (simp add: np_sum_def bind_r_def split: option.splits sum.splits)

lemma shape_matmul:
  assumes "shape a = ba @ [m, k]" and "shape b = bb @ [k', p]"
  shows "map_sum id shape (np_matmul a b) =
     (if k \<noteq> k' then Inl ValueError
      else case broadcast_shapes ba bb of None \<Rightarrow> Inl ValueError
           | Some bt \<Rightarrow> Inr (bt @ [m, p]))"
  using assms by (simp add: np_matmul_def Let_def butlast_append split: option.splits)

text \<open>Shapes of nodes built by the free functions, from the shapes of their inputs.\<close>

lemma shape_of_ewise:
  assumes "shape_of x = Inr s" and "shape_of y = Inr t"
    and "f = EWiseAdd \<or> f = EWiseMul \<or> f = EWiseDiv"
  shows "shape_of (Apply f [x, y]) =
     (case broadcast_shapes s t of None \<Rightarrow> Inl ValueError | Some u \<Rightarrow> Inr u)"
proof -
  obtain a b where a: "realize x = Inr a" "shape a = s" and b: "realize y = Inr b" "shape b = t"
    using assms(1,2) by (blast dest: shape_ofD)
  show ?thesis
    using assms(3) a(2) b(2) by (auto simp: shape_of_Apply2 [OF a(1) b(1)] shape_ewise)
qed

lemma shape_of_scalar_op:
  assumes "shape_of x = Inr s"
    and "f = AddScalar c \<or> f = MulScalar c \<or> f = DivScalar c \<or> f = PowerScalar n
         \<or> f = Negate \<or> f = Log \<or> f = Exp"
  shows "shape_of (Apply f [x]) = Inr s"
proof -
  obtain a where a: "realize x = Inr a" "shape a = s"
    using assms(1) by (blast dest: shape_ofD)
  show ?thesis
    using assms(2) a(2) by (auto simp: shape_of_Apply1 [OF a(1)])
qed

lemma shape_of_transpose:
  assumes "shape_of x = Inr s"
  shows "shape_of (transpose_t x axes) =
     (case (case axes of Some p \<Rightarrow> p | None \<Rightarrow> (-2, -1)) of (ax1, ax2) \<Rightarrow>
        bind_r (normalize_axis (length s) ax1) (\<lambda>i.
        bind_r (normalize_axis (length s) ax2) (\<lambda>j. Inr (swap i j s))))"
proof -
  obtain a where a: "realize x = Inr a" "shape a = s"
    using assms(1) by (blast dest: shape_ofD)
  show ?thesis
    using a(2)
    by (simp add: transpose_t_def shape_of_Apply1 [OF a(1)] shape_swapaxes split: prod.splits)
qed

lemma shape_of_reshape:
  assumes "shape_of x = Inr s"
  shows "shape_of (reshape x tgt) =
     (case resolve_shape (prod_list s) tgt of None \<Rightarrow> Inl ValueError | Some u \<Rightarrow> Inr u)"
proof -
  obtain a where a: "realize x = Inr a" "shape a = s"
    using assms(1) by (blast dest: shape_ofD)
  show ?thesis
    using a(2) by (simp add: reshape_def shape_of_Apply1 [OF a(1)] shape_reshape)
qed

lemma shape_of_broadcast_to:
  assumes "shape_of x = Inr s"
  shows "shape_of (broadcast_to x tgt) =
     (if (\<exists>d \<in> set tgt. d < 0) \<or> \<not> broadcastable_to s (map nat tgt)
      then Inl ValueError else Inr (map nat tgt))"
proof -
  obtain a where a: "realize x = Inr a" "shape a = s"
    using assms(1) by (blast dest: shape_ofD)
  show ?thesis
    using a(2) by (simp add: broadcast_to_def shape_of_Apply1 [OF a(1)] shape_broadcast_to)
qed

lemma shape_of_Summation:
  assumes "shape_of x = Inr s"
  shows "shape_of (Apply (Summation axes) [x]) =
     (case axes of None \<Rightarrow> Inr []
      | Some axs \<Rightarrow> bind_r (normalize_axes (length s) axs) (\<lambda>ks. Inr (remove_axes ks s)))"
proof -
  obtain a where a: "realize x = Inr a" "shape a = s"
    using assms(1) by (blast dest: shape_ofD)
  show ?thesis
    using a(2) by (simp add: shape_of_Apply1 [OF a(1)] shape_sum split: option.splits)
qed

lemma shape_of_matmul:
  assumes "shape_of x = Inr (ba @ [m, k])" and "shape_of y = Inr (bb @ [k', p])"
  shows "shape_of (matmul x y) =
     (if k \<noteq> k' then Inl ValueError
      else case broadcast_shapes ba bb of None \<Rightarrow> Inl ValueError
           | Some bt \<Rightarrow> Inr (bt @ [m, p]))"
proof -
  obtain a b where a: "realize x = Inr a" "shape a = ba @ [m, k]"
    and b: "realize y = Inr b" "shape b = bb @ [k', p]"
    using assms by (blast dest: shape_ofD)
  show ?thesis
    by (simp add: matmul_def shape_of_Apply2 [OF a(1) b(1)] shape_matmul [OF a(2) b(2)])
qed

lemma shape_of_relu:
  assumes "shape_of x = Inr s"
  shows "shape_of (relu x) = Inr (if s = [] then [1] else s)"
proof -
  obtain a where a: "realize x = Inr a" "shape a = s"
    using assms(1) by (blast dest: shape_ofD)
  show ?thesis
    using a(2)
    by (simp add: relu_def shape_of_Apply1 [OF a(1)] np_maximum_def shape_ewise
        broadcast_shapes_one)
qed

subsection \<open>Reshape and Summation\<close>

lemma resolve_shape_nat:
  "resolve_shape n (map int s) = (if prod_list s = n then Some s else None)"
proof -
  have "filter (\<lambda>d. d < 0) (map int s) = []" by (induction s) auto
  moreover have "map nat (map int s) = s" by (simp add: o_def)
  ultimately show ?thesis by (simp add: resolve_shape_def)
qed

lemma shape_of_reshape_nat:
  "shape_of x = Inr s \<Longrightarrow> prod_list u = prod_list s \<Longrightarrow>
   shape_of (reshape x (map int u)) = Inr u"
  by (simp add: shape_of_reshape resolve_shape_nat)

lemma normalize_axis_nat: "k < n \<Longrightarrow> normalize_axis n (int k) = Inr k"
  by (simp add: normalize_axis_def)

lemma normalize_axes_nat:
  assumes "\<And>k. k \<in> set ks \<Longrightarrow> k < n" and "distinct ks"
  shows "normalize_axes n (map int ks) = Inr ks"
proof -
  have "collect (map (normalize_axis n) (map int ks)) = Inr (map (\<lambda>k. k) ks)"
    unfolding map_map by (rule collect_map_Inr) (simp add: assms(1) normalize_axis_nat)
  then show ?thesis using assms(2) by (simp add: normalize_axes_def)
qed

lemma prod_list_filter_enumerate:
  fixes xs :: "nat list"
  shows "prod_list (map snd (filter (\<lambda>p. fst p \<notin> K) (enumerate n xs)))
         = prod_list (map (\<lambda>p. if fst p \<in> K then 1 else snd p) (enumerate n xs))"
  by (induction xs arbitrary: n) simp_all

lemma map_enumerate_nth:
  "map f (enumerate 0 xs) = map (\<lambda>i. f (i, xs ! i)) [0..<length xs]"
  by (intro nth_equalityI) (simp_all add: nth_enumerate_eq)

lemma prod_list_remove_axes:
  fixes xs :: "nat list"
  shows "prod_list (remove_axes ks xs)
         = prod_list (map (\<lambda>i. if i \<in> set ks then 1 else xs ! i) [0..<length xs])"
proof -
  have "map (\<lambda>p. if fst p \<in> set ks then 1 else snd p) (enumerate 0 xs)
        = map (\<lambda>i. if i \<in> set ks then 1 else xs ! i) [0..<length xs]"
    by (intro nth_equalityI) (simp_all add: nth_enumerate_eq)
  then show ?thesis
    unfolding remove_axes_def by (simp only: prod_list_filter_enumerate)
qed

lemma remove_axes_upt_gen:
  "map snd (filter (\<lambda>p. fst p \<notin> set [0..<k]) (enumerate n xs)) = drop (k - n) xs"
proof (induction xs arbitrary: n)
  case Nil
  then show ?case by simp
next
  case (Cons x xs)
  show ?case
  proof (cases "n < k")
    case True
    then have "k - n = Suc (k - Suc n)" by simp
    then show ?thesis using True Cons.IH [of "Suc n"] by simp
  next
    case False
    then show ?thesis using Cons.IH [of "Suc n"] by simp
  qed
qed

lemma remove_axes_upt: "remove_axes [0..<k] xs = drop k xs"
  using remove_axes_upt_gen [of k 0 xs] by (simp add: remove_axes_def)

lemma length_remove_axes_less:
  assumes "k \<in> set ks" and "k < length xs"
  shows "length (remove_axes ks xs) < length xs"
proof -
  have "(k, xs ! k) \<in> set (enumerate 0 xs)"
    using assms(2) by (simp add: in_set_enumerate_eq)
  moreover have "\<not> (fst (k, xs ! k) \<notin> set ks)" using assms(1) by simp
  ultimately have "length (filter (\<lambda>p. fst p \<notin> set ks) (enumerate 0 xs))
                   < length (enumerate 0 xs)"
    by (rule length_filter_less)
  then show ?thesis by (simp add: remove_axes_def)
qed

lemma fold_out_shape:
  "m \<le> length s \<Longrightarrow>
   fold (\<lambda>i out_shape. if int i \<notin> set axs then out_shape[i := s ! i] else out_shape)
        [0..<m] (replicate (length s) 1)
   = map (\<lambda>i. if i < m \<and> int i \<notin> set axs then s ! i else 1) [0..<length s]"
proof (induction m)
  case 0
  then show ?case by (simp add: map_replicate_trivial)
next
  case (Suc m)
  then have IH: "fold (\<lambda>i out_shape. if int i \<notin> set axs then out_shape[i := s ! i] else out_shape)
        [0..<m] (replicate (length s) 1)
     = map (\<lambda>i. if i < m \<and> int i \<notin> set axs then s ! i else 1) [0..<length s]"
    and m: "m < length s" by simp_all
  show ?case
  proof (cases "int m \<in> set axs")
    case True
    have "map (\<lambda>i. if i < m \<and> int i \<notin> set axs then s ! i else 1) [0..<length s]
          = map (\<lambda>i. if i < Suc m \<and> int i \<notin> set axs then s ! i else 1) [0..<length s]"
      using True by (auto simp: less_Suc_eq)
    then show ?thesis using True IH by simp
  next
    case False
    have "(map (\<lambda>i. if i < m \<and> int i \<notin> set axs then s ! i else 1) [0..<length s])[m := s ! m]
          = map (\<lambda>i. if i < Suc m \<and> int i \<notin> set axs then s ! i else 1) [0..<length s]"
      using False m by (intro nth_equalityI) (auto simp: nth_list_update less_Suc_eq)
    then show ?thesis using False IH by simp
  qed
qed

lemma summation_out_shape_Some:
  "summation_out_shape (Some axs) s
   = map (\<lambda>i. if int i \<in> set axs then 1 else s ! i) [0..<length s]"
proof -
  have "map (\<lambda>i. if i < length s \<and> int i \<notin> set axs then s ! i else 1) [0..<length s]
        = map (\<lambda>i. if int i \<in> set axs then 1 else s ! i) [0..<length s]"
    by simp
  then show ?thesis
    using fold_out_shape [of "length s" s axs] by (simp add: summation_out_shape_def)
qed

lemma collect_normalize_member:
  "collect (map (normalize_axis n) axs) = Inr ks \<Longrightarrow> ax \<in> set axs \<Longrightarrow>
   \<exists>k \<in> set ks. normalize_axis n ax = Inr k"
proof (induction axs arbitrary: ks)
  case Nil
  then show ?case by simp
next
  case (Cons b axs)
  then show ?case
    by (cases "normalize_axis n b"; cases "collect (map (normalize_axis n) axs)") auto
qed

lemma normalize_axes_collect:
  "normalize_axes n axs = Inr ks \<Longrightarrow>
   collect (map (normalize_axis n) axs) = Inr ks \<and> distinct ks"
  by (auto simp: normalize_axes_def bind_r_def split: sum.splits if_splits)

text \<open>
  Claim C9.  When every axis of a Summation is negative, no loop index \<open>0..n-1\<close> is a
  member of the axes tuple, so the shape that the backward rule reshapes the output gradient
  into is the whole input shape; the forward computation, when the axes are valid,
  nevertheless removes the axes they denote.
\<close>

theorem summation_negative_axes:
  assumes "axs \<noteq> []" and "\<forall>ax \<in> set axs. ax < 0"
    and "shape_of a = Inr in_shape"
  shows "summation_out_shape (Some axs) in_shape = in_shape
       \<and> gradient (Summation (Some axs)) out_grad (summation a (TupleAxes axs))
           = Inr (One (broadcast_to (reshape out_grad (map int in_shape)) (map int in_shape)))
       \<and> (\<forall>ks. normalize_axes (length in_shape) axs = Inr ks \<longrightarrow>
             shape_of (summation a (TupleAxes axs)) = Inr (remove_axes ks in_shape)
           \<and> length (remove_axes ks in_shape) < length in_shape)"
proof -
  have "\<And>i. int i \<notin> set axs" using assms(2) by fastforce
  then have out: "summation_out_shape (Some axs) in_shape = in_shape"
    by (simp add: summation_out_shape_Some map_nth)
  have g: "gradient (Summation (Some axs)) out_grad (summation a (TupleAxes axs))
           = Inr (One (broadcast_to (reshape out_grad (map int in_shape)) (map int in_shape)))"
    using assms(3) out by (simp add: summation_def input0_def)
  have "shape_of (summation a (TupleAxes axs)) = Inr (remove_axes ks in_shape)
        \<and> length (remove_axes ks in_shape) < length in_shape"
    if ks: "normalize_axes (length in_shape) axs = Inr ks" for ks
  proof -
    have fwd: "shape_of (summation a (TupleAxes axs)) = Inr (remove_axes ks in_shape)"
      using ks by (simp add: summation_def shape_of_Summation [OF assms(3)])
    obtain ax where ax: "ax \<in> set axs" using assms(1) by (cases axs) auto
    have "collect (map (normalize_axis (length in_shape)) axs) = Inr ks"
      using ks by (simp add: normalize_axes_collect)
    then have "\<exists>k \<in> set ks. normalize_axis (length in_shape) ax = Inr k"
      using ax by (rule collect_normalize_member)
    then obtain k where "k \<in> set ks" "k < length in_shape"
      by (auto dest: normalize_axis_Inr)
    then have "length (remove_axes ks in_shape) < length in_shape"
      by (rule length_remove_axes_less)
    with fwd show ?thesis by simp
  qed
  with out g show ?thesis by simp
qed

theorem summation_negative_axes_witness:
  "summation_out_shape (Some [-1]) [2, 3] = [2, 3]
   \<and> gradient (Summation (Some [-1])) (Const \<lparr>shape = [2], data = [Fin 1, Fin 1]\<rparr>)
        (summation (Const \<lparr>shape = [2, 3], data = [Fin 1, Fin 2, Fin 3, Fin 4, Fin 5, Fin 6]\<rparr>) (TupleAxes [-1]))
       = Inr (One (broadcast_to (reshape (Const \<lparr>shape = [2], data = [Fin 1, Fin 1]\<rparr>) (map int [2, 3]))
                                (map int [2, 3])))
   \<and> shape_of (summation (Const \<lparr>shape = [2, 3], data = [Fin 1, Fin 2, Fin 3, Fin 4, Fin 5, Fin 6]\<rparr>) (TupleAxes [-1]))
       = Inr (remove_axes [1] [2, 3])
   \<and> length (remove_axes [1] [2, 3 :: nat]) < length [2, 3 :: nat]"
proof -
  have h1: "[-1 :: int] \<noteq> []" by simp
  have h2: "\<forall>ax \<in> set [-1 :: int]. ax < 0" by simp
  have h3: "shape_of (Const \<lparr>shape = [2, 3], data = [Fin 1, Fin 2, Fin 3, Fin 4, Fin 5, Fin 6]\<rparr>) = Inr [2, 3]" by simp
  have h4: "normalize_axes (length [2, 3 :: nat]) [-1] = Inr [1]"
    by (simp add: normalize_axes_def normalize_axis_def)
  show ?thesis
    using summation_negative_axes [OF h1 h2 h3] h4 by blast
qed

text \<open>The rule on axes that are given from the front.\<close>

lemma collect_normalize_nonneg:
  "collect (map (normalize_axis n) axs) = Inr ks \<Longrightarrow> \<forall>ax \<in> set axs. 0 \<le> ax \<Longrightarrow>
   ks = map nat axs \<and> (\<forall>k \<in> set ks. k < n)"
proof (induction axs arbitrary: ks)
  case Nil
  then show ?case by simp
next
  case (Cons b axs)
  then obtain k ks' where k: "normalize_axis n b = Inr k"
    and ks': "collect (map (normalize_axis n) axs) = Inr ks'" and eq: "ks = k # ks'"
    by (cases "normalize_axis n b"; cases "collect (map (normalize_axis n) axs)") auto
  have "k = nat b" "k < n"
    using k Cons.prems(2) by (auto simp: normalize_axis_def split: if_splits)
  moreover have "ks' = map nat axs \<and> (\<forall>k \<in> set ks'. k < n)"
    using Cons.IH [OF ks'] Cons.prems(2) by simp
  ultimately show ?case using eq by simp
qed

lemma broadcastable_replicate: "broadcastable_to (replicate (length s) (Suc 0)) s"
  by (simp add: broadcastable_to_def list_all2_conv_all_nth)

lemma summation_gradient_shape:
  assumes a: "shape_of a = Inr s"
    and fwd: "shape_of (Apply (Summation axes) [a]) = Inr out"
    and g: "shape_of g = Inr out"
    and nonneg: "\<And>axs ax. axes = Some axs \<Longrightarrow> ax \<in> set axs \<Longrightarrow> 0 \<le> ax"
  shows "gradient (Summation axes) g (Apply (Summation axes) [a])
           = Inr (One (broadcast_to (reshape g (map int (summation_out_shape axes s)))
                                    (map int s)))
       \<and> prod_list (summation_out_shape axes s) = prod_list out
       \<and> shape_of (broadcast_to (reshape g (map int (summation_out_shape axes s))) (map int s))
           = Inr s"
proof -
  let ?os = "summation_out_shape axes s"
  have grad: "gradient (Summation axes) g (Apply (Summation axes) [a])
           = Inr (One (broadcast_to (reshape g (map int ?os)) (map int s)))"
    using a by (simp add: input0_def)
  have "prod_list ?os = prod_list out \<and> broadcastable_to ?os s"
  proof (cases axes)
    case None
    then have "out = []" using fwd by (simp add: shape_of_Summation [OF a])
    then show ?thesis using None
      by (simp add: summation_out_shape_def broadcastable_replicate)
  next
    case (Some axs)
    then obtain ks where ks: "normalize_axes (length s) axs = Inr ks"
      and out: "out = remove_axes ks s"
      using fwd
      by (cases "normalize_axes (length s) axs") (auto simp: shape_of_Summation [OF a])
    have "ks = map nat axs"
      using collect_normalize_nonneg [of "length s" axs ks] normalize_axes_collect [OF ks]
        nonneg [OF Some] by simp
    then have mem: "\<And>i. int i \<in> set axs \<longleftrightarrow> i \<in> set ks"
      using nonneg [OF Some] by (force simp: image_iff)
    have os: "?os = map (\<lambda>i. if i \<in> set ks then 1 else s ! i) [0..<length s]"
      using Some by (simp add: summation_out_shape_Some mem)
    have "prod_list ?os = prod_list out"
      unfolding os out by (simp only: prod_list_remove_axes)
    moreover have "broadcastable_to ?os s"
      unfolding os by (simp add: broadcastable_to_def list_all2_conv_all_nth)
    ultimately show ?thesis by simp
  qed
  then have p: "prod_list ?os = prod_list out" and b: "broadcastable_to ?os s" by simp_all
  have "shape_of (reshape g (map int ?os)) = Inr ?os"
    using g p by (rule shape_of_reshape_nat)
  then have "shape_of (broadcast_to (reshape g (map int ?os)) (map int s)) = Inr s"
    using b by (simp add: shape_of_broadcast_to o_def)
  with grad p show ?thesis by simp
qed

text \<open>
  Claim C4.  The backward rule of Summation is to put size 1 at every reduced axis, reshape
  the output gradient to that shape and broadcast it to the input shape.  With the axis
  given from the end the code does not do so: for an input of shape (2, 3) summed over
  axis -1 the output gradient has shape (2), the rule reshapes it to (2, 3) instead of
  (2, 1), and that node has no value.  (With axes given from the front the rule is as
  claimed: \<open>summation_gradient_shape\<close>.)
\<close>

theorem summation_gradient_negative_axis:
  "shape_of (Const \<lparr>shape = [2, 3], data = [Fin 1, Fin 2, Fin 3, Fin 4, Fin 5, Fin 6]\<rparr>) = Inr [2, 3]
   \<and> shape_of (summation (Const \<lparr>shape = [2, 3], data = [Fin 1, Fin 2, Fin 3, Fin 4, Fin 5, Fin 6]\<rparr>) (IntAxis (-1)))
       = Inr [2]
   \<and> gradient (Summation_init (IntAxis (-1))) (Const \<lparr>shape = [2], data = [Fin 1, Fin 1]\<rparr>)
        (summation (Const \<lparr>shape = [2, 3], data = [Fin 1, Fin 2, Fin 3, Fin 4, Fin 5, Fin 6]\<rparr>) (IntAxis (-1)))
       = Inr (One (broadcast_to (reshape (Const \<lparr>shape = [2], data = [Fin 1, Fin 1]\<rparr>) [2, 3]) [2, 3]))
   \<and> shape_of (broadcast_to (reshape (Const \<lparr>shape = [2], data = [Fin 1, Fin 1]\<rparr>) [2, 3]) [2, 3])
       = Inl ValueError"
  by code_simp

subsection \<open>BroadcastTo\<close>

lemma broadcast_axes_set:
  "set (broadcast_axes tgt in_shape)
   = {i. i < length tgt
         \<and> tgt ! i \<noteq> int ((replicate (length tgt - length in_shape) 1 @ in_shape) ! i)}"
  by (auto simp: broadcast_axes_def Let_def)

lemma broadcast_axes_distinct: "distinct (broadcast_axes tgt in_shape)"
  by (simp add: broadcast_axes_def Let_def)

lemma padded_nth:
  assumes bc: "broadcastable_to s t" and i: "i < length t"
  shows "(replicate (length t - length s) 1 @ s) ! i = t ! i
       \<or> (replicate (length t - length s) 1 @ s) ! i = 1"
proof (cases "i < length t - length s")
  case True
  then show ?thesis by (simp add: nth_append)
next
  case False
  let ?d = "length t - length s"
  have len: "length s \<le> length t"
    and all: "list_all2 (\<lambda>n m. n = m \<or> n = 1) s (drop ?d t)"
    using bc by (simp_all add: broadcastable_to_def)
  have j: "i - ?d < length s" using False i len by simp
  have "s ! (i - ?d) = drop ?d t ! (i - ?d) \<or> s ! (i - ?d) = 1"
    using list_all2_nthD [OF all j] by simp
  moreover have "drop ?d t ! (i - ?d) = t ! i" using False i by simp
  ultimately show ?thesis using False by (simp add: nth_append)
qed

lemma prod_list_broadcast_axes:
  assumes nonneg: "\<forall>d \<in> set tgt. 0 \<le> d" and bc: "broadcastable_to s (map nat tgt)"
  shows "prod_list (remove_axes (broadcast_axes tgt s) (map nat tgt)) = prod_list s"
proof -
  let ?t = "map nat tgt"
  let ?p = "replicate (length tgt - length s) 1 @ s"
  have len: "length s \<le> length tgt" using bc by (simp add: broadcastable_to_def)
  then have lp: "length ?p = length tgt" by simp
  have eq: "(if i \<in> set (broadcast_axes tgt s) then 1 else ?t ! i) = ?p ! i"
    if i: "i < length tgt" for i
  proof -
    obtain n where n: "tgt ! i = int n"
      using nonneg i by (metis nth_mem zero_le_imp_eq_int)
    then have tn: "?t ! i = n" using i by simp
    have mem: "i \<in> set (broadcast_axes tgt s) \<longleftrightarrow> n \<noteq> ?p ! i"
      using i n by (simp add: broadcast_axes_set)
    have "?p ! i = ?t ! i \<or> ?p ! i = 1"
      using padded_nth [OF bc, of i] i by simp
    then show ?thesis unfolding mem tn by auto
  qed
  have "prod_list (remove_axes (broadcast_axes tgt s) ?t)
        = prod_list (map (\<lambda>i. if i \<in> set (broadcast_axes tgt s) then 1 else ?t ! i)
                        [0..<length ?t])"
    by (rule prod_list_remove_axes)
  also have "map (\<lambda>i. if i \<in> set (broadcast_axes tgt s) then 1 else ?t ! i) [0..<length ?t]
             = map (\<lambda>i. ?p ! i) [0..<length ?p]"
    using eq lp by simp
  also have "\<dots> = ?p" by (rule map_nth)
  finally show ?thesis by simp
qed

lemma broadcast_to_gradient_shape:
  assumes "shape_of a = Inr in_shape"
    and "shape_of (broadcast_to a tgt) = Inr out"
    and "shape_of out_grad = Inr out"
  shows "gradient (BroadcastTo tgt) out_grad (broadcast_to a tgt)
           = Inr (One (reshape (summation out_grad
                                  (TupleAxes (map int (broadcast_axes tgt in_shape))))
                               (map int in_shape)))
       \<and> set (broadcast_axes tgt in_shape)
           = {i. i < length tgt
                 \<and> tgt ! i \<noteq> int ((replicate (length tgt - length in_shape) 1 @ in_shape) ! i)}
       \<and> shape_of (summation out_grad (TupleAxes (map int (broadcast_axes tgt in_shape))))
           = Inr (remove_axes (broadcast_axes tgt in_shape) out)
       \<and> shape_of (reshape (summation out_grad
                               (TupleAxes (map int (broadcast_axes tgt in_shape))))
                            (map int in_shape))
           = Inr in_shape"
proof -
  let ?axes = "broadcast_axes tgt in_shape"
  let ?sum = "summation out_grad (TupleAxes (map int ?axes))"
  have grad: "gradient (BroadcastTo tgt) out_grad (broadcast_to a tgt)
                = Inr (One (reshape ?sum (map int in_shape)))"
    using assms(1) by (simp add: broadcast_to_def input0_def)
  have nonneg: "\<forall>d \<in> set tgt. 0 \<le> d"
    and bc: "broadcastable_to in_shape (map nat tgt)"
    and out: "out = map nat tgt"
    using assms(2) unfolding shape_of_broadcast_to [OF assms(1)]
    by (auto split: if_splits simp: not_less)
  have "k < length out" if "k \<in> set ?axes" for k
    using that out by (simp add: broadcast_axes_set)
  then have "normalize_axes (length out) (map int ?axes) = Inr ?axes"
    using broadcast_axes_distinct by (rule normalize_axes_nat)
  then have sum: "shape_of ?sum = Inr (remove_axes ?axes out)"
    by (simp add: summation_def shape_of_Summation [OF assms(3)])
  have "prod_list in_shape = prod_list (remove_axes ?axes out)"
    unfolding out using prod_list_broadcast_axes [OF nonneg bc] by simp
  with sum have "shape_of (reshape ?sum (map int in_shape)) = Inr in_shape"
    by (rule shape_of_reshape_nat)
  with grad sum show ?thesis by (simp add: broadcast_axes_set)
qed

text \<open>
  Claim C3.  For a valid broadcast the backward rule sums the output gradient over the
  axes at which the input shape, padded on the left with ones to the rank of the target,
  differs from the target, and reshapes the sum to the input shape; that sum has the
  element count of the input, so the result has the input's shape.
\<close>

theorem broadcast_to_gradient:
  assumes "shape_of a = Inr in_shape"
    and "shape_of (broadcast_to a tgt) = Inr out"
    and "shape_of out_grad = Inr out"
  shows "gradient (BroadcastTo tgt) out_grad (broadcast_to a tgt)
           = Inr (One (reshape (summation out_grad
                                  (TupleAxes (map int (broadcast_axes tgt in_shape))))
                               (map int in_shape)))
       \<and> set (broadcast_axes tgt in_shape)
           = {i. i < length tgt
                 \<and> tgt ! i \<noteq> int ((replicate (length tgt - length in_shape) 1 @ in_shape) ! i)}
       \<and> shape_of (summation out_grad (TupleAxes (map int (broadcast_axes tgt in_shape))))
           = Inr (remove_axes (broadcast_axes tgt in_shape) out)
       \<and> shape_of (reshape (summation out_grad
                               (TupleAxes (map int (broadcast_axes tgt in_shape))))
                            (map int in_shape))
           = Inr in_shape"
  using assms by (rule broadcast_to_gradient_shape)

theorem broadcast_to_gradient_witness:
  "gradient (BroadcastTo [2, 3]) (Const \<lparr>shape = [2, 3], data = [Fin 1, Fin 1, Fin 1, Fin 1, Fin 1, Fin 1]\<rparr>)
      (broadcast_to (Const \<lparr>shape = [3], data = [Fin 1, Fin 2, Fin 3]\<rparr>) [2, 3])
     = Inr (One (reshape (summation (Const \<lparr>shape = [2, 3], data = [Fin 1, Fin 1, Fin 1, Fin 1, Fin 1, Fin 1]\<rparr>)
                            (TupleAxes [0])) [3]))
   \<and> shape_of (summation (Const \<lparr>shape = [2, 3], data = [Fin 1, Fin 1, Fin 1, Fin 1, Fin 1, Fin 1]\<rparr>) (TupleAxes [0]))
       = Inr [3]
   \<and> shape_of (reshape (summation (Const \<lparr>shape = [2, 3], data = [Fin 1, Fin 1, Fin 1, Fin 1, Fin 1, Fin 1]\<rparr>)
                           (TupleAxes [0])) [3])
       = Inr [3]"
proof -
  let ?a = "Const \<lparr>shape = [3], data = [Fin 1, Fin 2, Fin 3]\<rparr>"
  let ?g = "Const \<lparr>shape = [2, 3], data = [Fin 1, Fin 1, Fin 1, Fin 1, Fin 1, Fin 1]\<rparr>"
  have h1: "shape_of ?a = Inr [3]" by simp
  have h2: "shape_of (broadcast_to ?a [2, 3]) = Inr [2, 3]" by code_simp
  have h3: "shape_of ?g = Inr [2, 3]" by simp
  have ax: "broadcast_axes [2, 3] [3] = [0]" by code_simp
  have rm: "remove_axes [0] [2, 3 :: nat] = [3]" by code_simp
  from broadcast_to_gradient [OF h1 h2 h3] show ?thesis
    unfolding ax rm by simp
qed

subsection \<open>The backward rule of MatMul\<close>

lemma bc_rev_absorb:
  "bc_rev xs ys = Some zs \<Longrightarrow>
   bc_rev zs ys = Some zs \<and> bc_rev xs zs = Some zs \<and> length zs = max (length xs) (length ys)"
proof (induction xs ys arbitrary: zs rule: bc_rev.induct)
  case (1 ys)
  then show ?case by auto
next
  case (2 x xs)
  then show ?case by auto
next
  case (3 x xs y ys)
  show ?case
  proof (cases "x = y \<or> y = 1")
    case True
    then obtain zs' where zs': "bc_rev xs ys = Some zs'" and zs: "zs = x # zs'"
      using "3.prems" by auto
    have "bc_rev zs' ys = Some zs' \<and> bc_rev xs zs' = Some zs'
          \<and> length zs' = max (length xs) (length ys)"
      using "3.IH"(1) [OF True zs'] .
    then show ?thesis using True zs by simp
  next
    case False
    then have x: "x = 1" using "3.prems" by (simp split: if_splits)
    then obtain zs' where zs': "bc_rev xs ys = Some zs'" and zs: "zs = y # zs'"
      using "3.prems" False by auto
    have "bc_rev zs' ys = Some zs' \<and> bc_rev xs zs' = Some zs'
          \<and> length zs' = max (length xs) (length ys)"
      using "3.IH"(2) [OF False x zs'] .
    then show ?thesis using False x zs by simp
  qed
qed

lemma broadcast_shapes_absorb:
  assumes "broadcast_shapes s t = Some u"
  shows "broadcast_shapes u t = Some u" and "broadcast_shapes s u = Some u"
    and "length u = max (length s) (length t)"
proof -
  from assms obtain zs where zs: "bc_rev (rev s) (rev t) = Some zs" and u: "u = rev zs"
    by (auto simp: broadcast_shapes_def)
  from bc_rev_absorb [OF zs] u
  show "broadcast_shapes u t = Some u" and "broadcast_shapes s u = Some u"
    and "length u = max (length s) (length t)"
    by (simp_all add: broadcast_shapes_def)
qed

lemma swap_last_two: "swap (length b) (Suc (length b)) (b @ [m, k]) = b @ [k, m]"
  by (simp add: swap_def nth_append list_update_append)

lemma shape_of_transpose_default:
  assumes "shape_of x = Inr (b @ [m, k])"
  shows "shape_of (transpose_t x None) = Inr (b @ [k, m])"
proof -
  have "normalize_axis (length (b @ [m, k])) (-2) = Inr (length b)"
    and "normalize_axis (length (b @ [m, k])) (-1) = Inr (Suc (length b))"
    by (simp_all add: normalize_axis_def)
  then show ?thesis
    by (simp add: shape_of_transpose [OF assms] swap_last_two del: length_append)
qed

lemma shape_of_sum_leading:
  assumes "shape_of x = Inr s" and "k \<le> length s"
  shows "shape_of (summation x (TupleAxes (map int [0..<k]))) = Inr (drop k s)"
proof -
  have "normalize_axes (length s) (map int [0..<k]) = Inr [0..<k]"
    using assms(2) by (intro normalize_axes_nat) simp_all
  then show ?thesis
    by (simp add: summation_def shape_of_Summation [OF assms(1)] remove_axes_upt)
qed

lemma leading_sum_shape:
  assumes "shape_of x = Inr (bt @ [m, k])" and "length b \<le> length bt"
  shows "shape_of (if int (length (bt @ [m, k])) - int (length (b @ [m', k'])) > 0
                   then summation x (TupleAxes (map int
                          [0..<nat (int (length (bt @ [m, k])) - int (length (b @ [m', k'])))]))
                   else x)
         = Inr (drop (length bt - length b) bt @ [m, k])"
proof (cases "length b < length bt")
  case True
  then have d: "nat (int (length (bt @ [m, k])) - int (length (b @ [m', k']))) = length bt - length b"
    by simp
  have "shape_of (summation x (TupleAxes (map int [0..<length bt - length b])))
        = Inr (drop (length bt - length b) (bt @ [m, k]))"
    using assms(1) by (rule shape_of_sum_leading) simp
  then show ?thesis using True d by simp
next
  case False
  then show ?thesis using assms by simp
qed

lemma matmul_gradient_shape:
  assumes l: "shape_of lhs = Inr (ba @ [m, k])" and r: "shape_of rhs = Inr (bb @ [k, p])"
    and bt: "broadcast_shapes ba bb = Some bt"
    and g: "shape_of out_grad = Inr (bt @ [m, p])"
  shows "\<exists>g1 g2. gradient MatMul out_grad (matmul lhs rhs) = Inr (Many [g1, g2])
       \<and> g1 = (if length ba < length bt
               then summation (matmul out_grad (transpose_t rhs None))
                      (TupleAxes (map int [0..<length bt - length ba]))
               else matmul out_grad (transpose_t rhs None))
       \<and> g2 = (if length bb < length bt
               then summation (matmul (transpose_t lhs None) out_grad)
                      (TupleAxes (map int [0..<length bt - length bb]))
               else matmul (transpose_t lhs None) out_grad)
       \<and> shape_of g1 = Inr (drop (length bt - length ba) bt @ [m, k])
       \<and> shape_of g2 = Inr (drop (length bt - length bb) bt @ [k, p])"
proof -
  let ?grad_1 = "matmul out_grad (transpose_t rhs None)"
  let ?grad_2 = "matmul (transpose_t lhs None) out_grad"
  have len: "length ba \<le> length bt" "length bb \<le> length bt"
    using broadcast_shapes_absorb(3) [OF bt] by simp_all
  have rT: "shape_of (transpose_t rhs None) = Inr (bb @ [p, k])"
    using r by (rule shape_of_transpose_default)
  have lT: "shape_of (transpose_t lhs None) = Inr (ba @ [k, m])"
    using l by (rule shape_of_transpose_default)
  have s1: "shape_of ?grad_1 = Inr (bt @ [m, k])"
    by (simp add: shape_of_matmul [OF g rT] broadcast_shapes_absorb(1) [OF bt])
  have s2: "shape_of ?grad_2 = Inr (bt @ [k, p])"
    by (simp add: shape_of_matmul [OF lT g] broadcast_shapes_absorb(2) [OF bt])
  let ?g1 = "if int (length (bt @ [m, k])) - int (length (ba @ [m, k])) > 0
             then summation ?grad_1 (TupleAxes (map int
                    [0..<nat (int (length (bt @ [m, k])) - int (length (ba @ [m, k])))]))
             else ?grad_1"
  let ?g2 = "if int (length (bt @ [k, p])) - int (length (bb @ [k, p])) > 0
             then summation ?grad_2 (TupleAxes (map int
                    [0..<nat (int (length (bt @ [k, p])) - int (length (bb @ [k, p])))]))
             else ?grad_2"
  have grad: "gradient MatMul out_grad (matmul lhs rhs) = Inr (Many [?g1, ?g2])"
    by (simp add: unpack2_def matmul_def [of lhs rhs] s1 s2 l r Let_def del: length_append)
  have sh1: "shape_of ?g1 = Inr (drop (length bt - length ba) bt @ [m, k])"
    using s1 len(1) by (rule leading_sum_shape)
  have sh2: "shape_of ?g2 = Inr (drop (length bt - length bb) bt @ [k, p])"
    using s2 len(2) by (rule leading_sum_shape)
  have d1: "nat (int (length (bt @ [m, k])) - int (length (ba @ [m, k]))) = length bt - length ba"
    and d2: "nat (int (length (bt @ [k, p])) - int (length (bb @ [k, p]))) = length bt - length bb"
    by simp_all
  have c1: "(int (length (bt @ [m, k])) - int (length (ba @ [m, k])) > 0) = (length ba < length bt)"
    and c2: "(int (length (bt @ [k, p])) - int (length (bb @ [k, p])) > 0) = (length bb < length bt)"
    by simp_all
  have e1: "?g1 = (if length ba < length bt
               then summation ?grad_1 (TupleAxes (map int [0..<length bt - length ba]))
               else ?grad_1)"
    by (simp only: d1 c1)
  have e2: "?g2 = (if length bb < length bt
               then summation ?grad_2 (TupleAxes (map int [0..<length bt - length bb]))
               else ?grad_2)"
    by (simp only: d2 c2)
  show ?thesis
  proof (intro exI conjI)
    show "gradient MatMul out_grad (matmul lhs rhs) = Inr (Many [?g1, ?g2])" by (rule grad)
    show "?g1 = (if length ba < length bt
               then summation ?grad_1 (TupleAxes (map int [0..<length bt - length ba]))
               else ?grad_1)" by (rule e1)
    show "?g2 = (if length bb < length bt
               then summation ?grad_2 (TupleAxes (map int [0..<length bt - length bb]))
               else ?grad_2)" by (rule e2)
    show "shape_of ?g1 = Inr (drop (length bt - length ba) bt @ [m, k])" by (rule sh1)
    show "shape_of ?g2 = Inr (drop (length bt - length bb) bt @ [k, p])" by (rule sh2)
  qed
qed



text \<open>
  Claim C2.  The backward rule of MatMul builds \<open>g @ transpose(b)\<close> and
  \<open>transpose(a) @ g\<close> and sums each over its leading axes, as many as its rank exceeds
  the operand's (\<open>matmul_gradient_shape\<close>).  That restores the operand's shape only when
  the operand's batch axes are the trailing batch axes of the result.  A batch axis of
  size 1 that the product stretched is not summed: for \<open>a\<close> of shape (1, 1, 2) and
  \<open>b\<close> of shape (2, 2, 1) the ranks are equal, nothing is summed, and the gradient
  returned for \<open>a\<close> has shape (2, 1, 2).
\<close>

theorem matmul_gradient_stretched_batch:
  "shape_of (Const \<lparr>shape = [1, 1, 2], data = [Fin 1, Fin 2]\<rparr>) = Inr [1, 1, 2]
   \<and> shape_of (matmul (Const \<lparr>shape = [1, 1, 2], data = [Fin 1, Fin 2]\<rparr>)
                       (Const \<lparr>shape = [2, 2, 1], data = [Fin 1, Fin 2, Fin 3, Fin 4]\<rparr>)) = Inr [2, 1, 1]
   \<and> gradient MatMul (Const \<lparr>shape = [2, 1, 1], data = [Fin 1, Fin 1]\<rparr>)
        (matmul (Const \<lparr>shape = [1, 1, 2], data = [Fin 1, Fin 2]\<rparr>)
                (Const \<lparr>shape = [2, 2, 1], data = [Fin 1, Fin 2, Fin 3, Fin 4]\<rparr>))
       = Inr (Many [matmul (Const \<lparr>shape = [2, 1, 1], data = [Fin 1, Fin 1]\<rparr>)
                           (transpose_t (Const \<lparr>shape = [2, 2, 1], data = [Fin 1, Fin 2, Fin 3, Fin 4]\<rparr>) None),
                    matmul (transpose_t (Const \<lparr>shape = [1, 1, 2], data = [Fin 1, Fin 2]\<rparr>) None)
                           (Const \<lparr>shape = [2, 1, 1], data = [Fin 1, Fin 1]\<rparr>)])
   \<and> shape_of (matmul (Const \<lparr>shape = [2, 1, 1], data = [Fin 1, Fin 1]\<rparr>)
                       (transpose_t (Const \<lparr>shape = [2, 2, 1], data = [Fin 1, Fin 2, Fin 3, Fin 4]\<rparr>) None))
       = Inr [2, 1, 2]"
  by code_simp

subsection \<open>The form of the result of a backward rule\<close>

text \<open>
  Claim C5, as stated, fails for MulScalar: the operator has one input, and its backward
  rule returns a tuple with one node, not a single node.
\<close>

theorem mul_scalar_gradient_is_tuple:
  "arity (MulScalar 2) = 1
   \<and> gradient (MulScalar 2) (Const \<lparr>shape = [2], data = [Fin 1, Fin 1]\<rparr>)
        (mul_scalar (Const \<lparr>shape = [2], data = [Fin 3, Fin 4]\<rparr>) 2)
       = Inr (Many [tensor_mul_scalar (Const \<lparr>shape = [2], data = [Fin 1, Fin 1]\<rparr>) 2])
   \<and> (\<forall>t. gradient (MulScalar 2) (Const \<lparr>shape = [2], data = [Fin 1, Fin 1]\<rparr>)
              (mul_scalar (Const \<lparr>shape = [2], data = [Fin 3, Fin 4]\<rparr>) 2) \<noteq> Inr (One t))"
  by simp

lemma gradient_form:
  assumes "gradient f out_grad node = Inr r"
  shows "length (grad_nodes r) = arity f
       \<and> ((\<exists>t. r = One t) \<longleftrightarrow> arity f = 1 \<and> (\<forall>s. f \<noteq> MulScalar s))"
proof (cases f)
  case MatMul
  then show ?thesis
    using assms
    by (auto simp: unpack2_def bind_r_def Let_def split: list.splits sum.splits)
qed (use assms in \<open>auto simp: unpack2_def input0_def bind_r_def split: list.splits sum.splits\<close>)

lemma shape_of_realized: "realize t = Inr v \<Longrightarrow> shape_of t = Inr (shape v)"
  by (simp add: shape_of_def)

lemma gradient_returns:
  assumes "length ts = arity f" and "\<forall>t \<in> set ts. \<exists>v. realize t = Inr v"
    and "f = MatMul \<Longrightarrow>
           \<exists>s1 s2. shape_of (matmul out_grad (transpose_t (ts ! 1) None)) = Inr s1
                 \<and> shape_of (matmul (transpose_t (ts ! 0) None) out_grad) = Inr s2"
  shows "\<exists>r. gradient f out_grad (Apply f ts) = Inr r"
proof -
  have one: "\<exists>x v. ts = [x] \<and> realize x = Inr v" if "arity f = 1"
    using that assms(1,2) by (cases ts) auto
  have two: "\<exists>x y. ts = [x, y]" if "arity f = 2"
    using that assms(1) by (cases ts; cases "tl ts") auto
  show ?thesis
  proof (cases f)
    case MatMul
    then obtain x y where ts: "ts = [x, y]" using two by auto
    obtain vx vy where "realize x = Inr vx" "realize y = Inr vy"
      using assms(2) ts by auto
    then have sx: "shape_of x = Inr (shape vx)" and sy: "shape_of y = Inr (shape vy)"
      by (simp_all add: shape_of_realized)
    obtain s1 s2 where "shape_of (matmul out_grad (transpose_t y None)) = Inr s1"
      "shape_of (matmul (transpose_t x None) out_grad) = Inr s2"
      using assms(3) [OF MatMul] ts by auto
    then show ?thesis
      using MatMul ts sx sy by (simp add: unpack2_def Let_def)
  qed (use one two in \<open>auto simp: unpack2_def input0_def shape_of_def\<close>)
qed

lemma gradient_order:
  assumes "gradient f out_grad (Apply f [a, b]) = Inr r" and "arity f = 2"
  shows "grad_nodes r = spec_rule2 f out_grad a b"
proof (cases f)
  case MatMul
  let ?grad_1 = "matmul out_grad (transpose_t b None)"
  let ?grad_2 = "matmul (transpose_t a None) out_grad"
  from assms(1) MatMul obtain s1 sl s2 sr where
    s: "shape_of ?grad_1 = Inr s1" "shape_of a = Inr sl"
       "shape_of ?grad_2 = Inr s2" "shape_of b = Inr sr"
    by (cases "shape_of ?grad_1"; cases "shape_of a"; cases "shape_of ?grad_2";
        cases "shape_of b") (simp_all add: unpack2_def Let_def)
  have d: "nat (int (length s1) - int (length sl)) = length s1 - length sl"
    "nat (int (length s2) - int (length sr)) = length s2 - length sr"
    by simp_all
  have c: "(int (length s1) - int (length sl) > 0) = (length sl < length s1)"
    "(int (length s2) - int (length sr) > 0) = (length sr < length s2)"
    by simp_all
  have "gradient MatMul out_grad (Apply MatMul [a, b])
        = Inr (Many [if length sl < length s1
                     then summation ?grad_1 (TupleAxes (map int [0..<length s1 - length sl]))
                     else ?grad_1,
                     if length sr < length s2
                     then summation ?grad_2 (TupleAxes (map int [0..<length s2 - length sr]))
                     else ?grad_2])"
    by (simp add: unpack2_def Let_def s d c)
  then show ?thesis
    using assms(1) MatMul by (auto simp: sum_leading_def s)
qed (use assms in \<open>auto simp: unpack2_def\<close>)

text \<open>
  Claim C5, amended.  On a node with as many realizable inputs as the operator has
  parameters, the backward rule returns a result which holds exactly one node per input,
  in the order of the inputs: for an operator with two inputs the first node is the
  gradient that the specification gives for the first input and the second node the one
  for the second input.  The result is a single node exactly for the operators with one
  input other than MulScalar; for MulScalar it is a tuple of one node and for the
  operators with two inputs a tuple of two.  (The rule of MatMul reads the shapes of its
  two products, which must have values.)
\<close>

theorem gradient_result_form:
  assumes "length ts = arity f" and "\<forall>t \<in> set ts. \<exists>v. realize t = Inr v"
    and "f = MatMul \<Longrightarrow>
           \<exists>s1 s2. shape_of (matmul out_grad (transpose_t (ts ! 1) None)) = Inr s1
                 \<and> shape_of (matmul (transpose_t (ts ! 0) None) out_grad) = Inr s2"
  shows "\<exists>r. gradient f out_grad (Apply f ts) = Inr r
           \<and> length (grad_nodes r) = arity f
           \<and> ((\<exists>t. r = One t) \<longleftrightarrow> arity f = 1 \<and> (\<forall>s. f \<noteq> MulScalar s))
           \<and> (\<forall>a b. ts = [a, b] \<longrightarrow> grad_nodes r = spec_rule2 f out_grad a b)"
proof -
  obtain r where r: "gradient f out_grad (Apply f ts) = Inr r"
    using gradient_returns [OF assms] by blast
  have "grad_nodes r = spec_rule2 f out_grad a b" if "ts = [a, b]" for a b
    using gradient_order [of f out_grad a b r] r that assms(1) by simp
  with gradient_form [OF r] r show ?thesis by blast
qed

theorem gradient_result_form_witness:
  "\<exists>r. gradient MatMul (Const \<lparr>shape = [2, 2], data = [Fin 1, Fin 1, Fin 1, Fin 1]\<rparr>)
          (Apply MatMul [Const \<lparr>shape = [2, 3], data = [Fin 1, Fin 2, Fin 3, Fin 4, Fin 5, Fin 6]\<rparr>,
                         Const \<lparr>shape = [3, 2], data = [Fin 1, Fin 0, Fin 0, Fin 1, Fin 1, Fin 1]\<rparr>])
         = Inr r
       \<and> length (grad_nodes r) = 2
       \<and> (\<forall>t. r \<noteq> One t)
       \<and> grad_nodes r
           = [matmul (Const \<lparr>shape = [2, 2], data = [Fin 1, Fin 1, Fin 1, Fin 1]\<rparr>)
                (transpose_t (Const \<lparr>shape = [3, 2],
                                      data = [Fin 1, Fin 0, Fin 0, Fin 1, Fin 1, Fin 1]\<rparr>) None),
              matmul
                (transpose_t (Const \<lparr>shape = [2, 3],
                                      data = [Fin 1, Fin 2, Fin 3, Fin 4, Fin 5, Fin 6]\<rparr>) None)
                (Const \<lparr>shape = [2, 2], data = [Fin 1, Fin 1, Fin 1, Fin 1]\<rparr>)]"
proof -
  let ?g = "Const \<lparr>shape = [2, 2], data = [Fin 1, Fin 1, Fin 1, Fin 1]\<rparr>"
  let ?a = "Const \<lparr>shape = [2, 3], data = [Fin 1, Fin 2, Fin 3, Fin 4, Fin 5, Fin 6]\<rparr>"
  let ?b = "Const \<lparr>shape = [3, 2], data = [Fin 1, Fin 0, Fin 0, Fin 1, Fin 1, Fin 1]\<rparr>"
  have h1: "length [?a, ?b] = arity MatMul" by simp
  have h2: "\<forall>t \<in> set [?a, ?b]. \<exists>v. realize t = Inr v" by simp
  have s1: "shape_of (matmul ?g (transpose_t ([?a, ?b] ! 1) None)) = Inr [2, 3]" by code_simp
  have s2: "shape_of (matmul (transpose_t ([?a, ?b] ! 0) None) ?g) = Inr [3, 2]" by code_simp
  have h3: "\<exists>s1 s2. shape_of (matmul ?g (transpose_t ([?a, ?b] ! 1) None)) = Inr s1
                 \<and> shape_of (matmul (transpose_t ([?a, ?b] ! 0) None) ?g) = Inr s2"
    using s1 s2 by blast
  have sp: "spec_rule2 MatMul ?g ?a ?b
            = [matmul ?g (transpose_t ?b None), matmul (transpose_t ?a None) ?g]"
    by code_simp
  from gradient_result_form [OF h1 h2 h3]
  obtain r where "gradient MatMul ?g (Apply MatMul [?a, ?b]) = Inr r"
    "length (grad_nodes r) = arity MatMul"
    "(\<exists>t. r = One t) \<longleftrightarrow> arity MatMul = 1 \<and> (\<forall>s. MatMul \<noteq> MulScalar s)"
    "grad_nodes r = spec_rule2 MatMul ?g ?a ?b"
    by blast
  then show ?thesis unfolding sp by (intro exI [of _ r]) simp
qed

subsection \<open>The shapes of the gradients\<close>

lemma compute_arity: "compute f vs = Inr r \<Longrightarrow> length vs = arity f"
  by (induction f vs rule: compute.induct) simp_all

lemma collect_length: "collect rs = Inr vs \<Longrightarrow> length vs = length rs"
proof (induction rs arbitrary: vs)
  case Nil
  then show ?case by simp
next
  case (Cons r rs)
  then show ?case by (cases r; cases "collect rs") auto
qed

lemma shape_of_Apply_arity:
  assumes "shape_of (Apply f ts) = Inr out"
  shows "length ts = arity f"
proof -
  obtain a where "realize (Apply f ts) = Inr a"
    using assms by (blast dest: shape_ofD)
  then obtain vs where vs: "collect (map realize ts) = Inr vs" and "compute f vs = Inr a"
    by (cases "collect (map realize ts)") (simp_all del: compute.simps)
  then have "length vs = arity f" by (simp add: compute_arity)
  with collect_length [OF vs] show ?thesis by simp
qed

lemma prod_list_open_size:
  "prod_list (map (\<lambda>d. if d < 0 then q else nat d) tgt)
   = q ^ length (filter (\<lambda>d. d < 0) tgt) * prod_list (map nat (filter (\<lambda>d. 0 \<le> d) tgt))"
  by (induction tgt) simp_all

lemma resolve_shape_prod:
  assumes "resolve_shape n tgt = Some u"
  shows "prod_list u = n"
proof (cases "filter (\<lambda>d. d < 0) tgt = []")
  case True
  then show ?thesis
    using assms by (auto simp: resolve_shape_def split: if_splits)
next
  case False
  let ?k = "prod_list (map nat (filter (\<lambda>d. 0 \<le> d) tgt))"
  have c: "length (filter (\<lambda>d. d < 0) tgt) = 1" and k: "n mod ?k = 0"
    and u: "u = map (\<lambda>d. if d < 0 then n div ?k else nat d) tgt"
    using assms False by (auto simp: resolve_shape_def Let_def split: if_splits)
  have "prod_list u = (n div ?k) * ?k"
    unfolding u prod_list_open_size c by simp
  then show ?thesis using k by (simp add: mod_0_imp_dvd)
qed

lemma shape_of_unary:
  assumes "shape_of x = Inr s"
  shows "shape_of (Apply (AddScalar c) [x]) = Inr s"
    and "shape_of (Apply (MulScalar c) [x]) = Inr s"
    and "shape_of (Apply (DivScalar c) [x]) = Inr s"
    and "shape_of (Apply (PowerScalar n) [x]) = Inr s"
    and "shape_of (Apply Negate [x]) = Inr s"
    and "shape_of (Apply Log [x]) = Inr s"
    and "shape_of (Apply Exp [x]) = Inr s"
  using assms by (simp_all add: shape_of_scalar_op)

lemma shape_of_binary_same:
  assumes "shape_of x = Inr s" and "shape_of y = Inr s"
  shows "shape_of (Apply EWiseAdd [x, y]) = Inr s"
    and "shape_of (Apply EWiseMul [x, y]) = Inr s"
    and "shape_of (Apply EWiseDiv [x, y]) = Inr s"
  using assms by (simp_all add: shape_of_ewise)

lemma gradient_shapes_binary:
  assumes x: "shape_of x = Inr s" and y: "shape_of y = Inr s"
    and fwd: "shape_of (Apply f [x, y]) = Inr out"
    and g: "shape_of out_grad = Inr out"
    and f: "f = EWiseAdd \<or> f = EWiseMul \<or> f = EWiseDiv"
  shows "\<exists>r. gradient f out_grad (Apply f [x, y]) = Inr r
           \<and> map shape_of (grad_nodes r) = [Inr s, Inr s]"
proof -
  have "out = s" using fwd f shape_of_binary_same [OF x y] by auto
  then have g': "shape_of out_grad = Inr s" using g by simp
  have n: "shape_of (Apply Negate [out_grad]) = Inr s"
    using g' by (rule shape_of_unary)
  have p: "shape_of (Apply (PowerScalar 2) [y]) = Inr s"
    using y by (rule shape_of_unary)
  have m: "shape_of (Apply EWiseMul [Apply Negate [out_grad], x]) = Inr s"
    using n x by (rule shape_of_binary_same)
  show ?thesis
    using f g' shape_of_binary_same [OF g' x] shape_of_binary_same [OF g' y]
      shape_of_binary_same [OF m p]
    by (auto simp: unpack2_def tensor_mul_def tensor_div_def tensor_neg_def tensor_pow_def)
qed

lemma gradient_shapes_unary:
  assumes x: "shape_of x = Inr s"
    and fwd: "shape_of (Apply f [x]) = Inr out"
    and g: "shape_of out_grad = Inr out"
    and f: "f = AddScalar c \<or> f = MulScalar c \<or> f = DivScalar c \<or> f = PowerScalar n
            \<or> f = Negate \<or> f = Log \<or> f = Exp"
  shows "\<exists>r. gradient f out_grad (Apply f [x]) = Inr r
           \<and> map shape_of (grad_nodes r) = [Inr s]"
proof -
  have "out = s" using fwd f shape_of_unary [OF x] by auto
  then have g': "shape_of out_grad = Inr s" using g by simp
  have ms: "shape_of (Apply (MulScalar (of_int n)) [out_grad]) = Inr s"
    using g' by (rule shape_of_unary)
  have pw: "shape_of (Apply (PowerScalar (n - 1)) [x]) = Inr s"
    using x by (rule shape_of_unary)
  have ex: "shape_of (Apply Exp [x]) = Inr s"
    using x by (rule shape_of_unary)
  show ?thesis
    using f g' shape_of_unary [OF g'] shape_of_binary_same [OF g' x]
      shape_of_binary_same [OF ms pw] shape_of_binary_same [OF g' ex]
    by (auto simp: input0_def tensor_mul_def tensor_div_def tensor_mul_scalar_def
        tensor_div_scalar_def tensor_pow_def negate_def exp_t_def)
qed

lemma gradient_shapes_transpose:
  assumes x: "shape_of x = Inr s"
    and fwd: "shape_of (Apply (Transpose axes) [x]) = Inr out"
    and g: "shape_of out_grad = Inr out"
  shows "\<exists>r. gradient (Transpose axes) out_grad (Apply (Transpose axes) [x]) = Inr r
           \<and> map shape_of (grad_nodes r) = [Inr s]"
proof -
  obtain ax1 ax2 where ax: "(case axes of Some p \<Rightarrow> p | None \<Rightarrow> (-2, -1)) = (ax1, ax2)"
    by (cases "case axes of Some p \<Rightarrow> p | None \<Rightarrow> (-2 :: int, -1 :: int)") auto
  have "bind_r (normalize_axis (length s) ax1) (\<lambda>i.
        bind_r (normalize_axis (length s) ax2) (\<lambda>j. Inr (swap i j s))) = Inr out"
    using fwd shape_of_transpose [OF x, of axes] ax by (simp add: transpose_t_def)
  then obtain i j where i: "normalize_axis (length s) ax1 = Inr i"
    and j: "normalize_axis (length s) ax2 = Inr j" and out: "out = swap i j s"
    by (cases "normalize_axis (length s) ax1"; cases "normalize_axis (length s) ax2") auto
  have il: "i < length s" and jl: "j < length s"
    using i j by (auto dest: normalize_axis_Inr)
  have "shape_of (transpose_t out_grad axes) = Inr (swap i j out)"
    using shape_of_transpose [OF g, of axes] ax i j out by simp
  then have "shape_of (transpose_t out_grad axes) = Inr s"
    using il jl out by (simp add: swap_swap)
  then show ?thesis by simp
qed

lemma gradient_shapes_reshape:
  assumes x: "shape_of x = Inr s"
    and fwd: "shape_of (Apply (Reshape tgt) [x]) = Inr out"
    and g: "shape_of out_grad = Inr out"
  shows "\<exists>r. gradient (Reshape tgt) out_grad (Apply (Reshape tgt) [x]) = Inr r
           \<and> map shape_of (grad_nodes r) = [Inr s]"
proof -
  have "resolve_shape (prod_list s) tgt = Some out"
    using fwd shape_of_reshape [OF x, of tgt]
    by (cases "resolve_shape (prod_list s) tgt") (simp_all add: reshape_def)
  then have "prod_list s = prod_list out" by (simp add: resolve_shape_prod)
  with g have "shape_of (reshape out_grad (map int s)) = Inr s"
    by (rule shape_of_reshape_nat)
  then show ?thesis using x by (simp add: input0_def)
qed

lemma gradient_shapes_relu:
  assumes x: "shape_of x = Inr s"
    and fwd: "shape_of (Apply ReLU [x]) = Inr out"
    and g: "shape_of out_grad = Inr out"
    and s: "s \<noteq> []"
  shows "\<exists>r. gradient ReLU out_grad (Apply ReLU [x]) = Inr r
           \<and> map shape_of (grad_nodes r) = [Inr s]"
proof -
  obtain a where a: "realize x = Inr a" "shape a = s"
    using x by (blast dest: shape_ofD)
  have "out = s" using fwd shape_of_relu [OF x] s by (simp add: relu_def)
  then have g': "shape_of out_grad = Inr s" using g by simp
  let ?m = "Const (map_array (\<lambda>v. if entry_gt v 0 then Fin 1 else Fin 0) a)"
  have "shape_of ?m = Inr s" using a(2) by simp
  with g' have "shape_of (Apply EWiseMul [out_grad, ?m]) = Inr s"
    by (rule shape_of_binary_same)
  then show ?thesis using a(1) by (simp add: input0_def tensor_mul_def)
qed

lemma last_two:
  assumes "2 \<le> length s"
  shows "s = butlast (butlast s) @ [last (butlast s), last s]"
proof -
  obtain s' y where s: "s = s' @ [y]"
    using assms by (cases s rule: rev_cases) auto
  then have "1 \<le> length s'" using assms by simp
  then obtain s'' x where s': "s' = s'' @ [x]"
    by (cases s' rule: rev_cases) auto
  show ?thesis unfolding s s' by (simp add: butlast_append)
qed

lemma gradient_shapes_matmul:
  assumes x: "shape_of x = Inr s" and y: "shape_of y = Inr t"
    and fwd: "shape_of (Apply MatMul [x, y]) = Inr out"
    and g: "shape_of out_grad = Inr out"
    and pre: "restoring MatMul [s, t]"
  shows "\<exists>r. gradient MatMul out_grad (Apply MatMul [x, y]) = Inr r
           \<and> map shape_of (grad_nodes r) = [Inr s, Inr t]"
proof -
  let ?ba = "butlast (butlast s)" and ?bb = "butlast (butlast t)"
  obtain m k where s: "s = ?ba @ [m, k]" using pre last_two [of s] by auto
  obtain k' p where t: "t = ?bb @ [k', p]" using pre last_two [of t] by auto
  obtain bt where bt: "broadcast_shapes ?ba ?bb = Some bt"
    and da: "drop (length bt - length ?ba) bt = ?ba"
    and db: "drop (length bt - length ?bb) bt = ?bb"
    using pre by (auto split: option.splits)
  have x': "shape_of x = Inr (?ba @ [m, k])" using x s by simp
  have y': "shape_of y = Inr (?bb @ [k', p])" using y t by simp
  have "shape_of (matmul x y) = Inr out" using fwd by (simp add: matmul_def)
  then have kk: "k' = k" and out: "out = bt @ [m, p]"
    using shape_of_matmul [OF x' y'] bt by (auto split: if_splits)
  have y'': "shape_of y = Inr (?bb @ [k, p])" using y' kk by simp
  have g': "shape_of out_grad = Inr (bt @ [m, p])" using g out by simp
  from matmul_gradient_shape [OF x' y'' bt g']
  obtain g1 g2 where r: "gradient MatMul out_grad (matmul x y) = Inr (Many [g1, g2])"
    and s1: "shape_of g1 = Inr (drop (length bt - length ?ba) bt @ [m, k])"
    and s2: "shape_of g2 = Inr (drop (length bt - length ?bb) bt @ [k, p])"
    by blast
  have "shape_of g1 = Inr s" using s1 da s by simp
  moreover have "shape_of g2 = Inr t" using s2 db t kk by simp
  ultimately show ?thesis using r by (simp add: matmul_def)
qed

lemma gradient_shapes_all:
  assumes ss: "map shape_of ts = map Inr ss"
    and fwd: "shape_of (Apply f ts) = Inr out"
    and g: "shape_of out_grad = Inr out"
    and pre: "restoring f ss"
  shows "\<exists>r. gradient f out_grad (Apply f ts) = Inr r
           \<and> map shape_of (grad_nodes r) = map Inr ss"
proof -
  have len: "length ts = arity f" using fwd by (rule shape_of_Apply_arity)
  have lss: "length ss = length ts" using ss by (metis length_map)
  have one: "\<exists>x s. ts = [x] \<and> ss = [s] \<and> shape_of x = Inr s" if a1: "arity f = 1"
  proof -
    obtain x where "ts = [x]" using a1 len by (cases ts) auto
    moreover then obtain s where "ss = [s]" using lss by (cases ss) auto
    ultimately show ?thesis using ss by auto
  qed
  have two: "\<exists>x y s t. ts = [x, y] \<and> ss = [s, t] \<and> shape_of x = Inr s \<and> shape_of y = Inr t"
    if a2: "arity f = 2"
  proof -
    obtain x y where "ts = [x, y]" using a2 len by (cases ts; cases "tl ts") auto
    moreover then obtain s t where "ss = [s, t]" using lss by (cases ss; cases "tl ss") auto
    ultimately show ?thesis using ss by auto
  qed
  show ?thesis
  proof (cases f)
    case EWiseAdd
    then obtain x y s t where *: "ts = [x, y]" "ss = [s, t]" "shape_of x = Inr s" "shape_of y = Inr t"
      using two by auto
    then show ?thesis
      using gradient_shapes_binary [of x s y f out out_grad] fwd g pre EWiseAdd by simp
  next
    case EWiseMul
    then obtain x y s t where *: "ts = [x, y]" "ss = [s, t]" "shape_of x = Inr s" "shape_of y = Inr t"
      using two by auto
    then show ?thesis
      using gradient_shapes_binary [of x s y f out out_grad] fwd g pre EWiseMul by simp
  next
    case EWiseDiv
    then obtain x y s t where *: "ts = [x, y]" "ss = [s, t]" "shape_of x = Inr s" "shape_of y = Inr t"
      using two by auto
    then show ?thesis
      using gradient_shapes_binary [of x s y f out out_grad] fwd g pre EWiseDiv by simp
  next
    case MatMul
    then obtain x y s t where *: "ts = [x, y]" "ss = [s, t]" "shape_of x = Inr s" "shape_of y = Inr t"
      using two by auto
    then show ?thesis
      using gradient_shapes_matmul [of x s y t out out_grad] fwd g pre MatMul by simp
  next
    case (AddScalar c)
    then obtain x s where *: "ts = [x]" "ss = [s]" "shape_of x = Inr s" using one by auto
    then show ?thesis
      using gradient_shapes_unary [of x s f out out_grad c] fwd g AddScalar by simp
  next
    case (MulScalar c)
    then obtain x s where *: "ts = [x]" "ss = [s]" "shape_of x = Inr s" using one by auto
    then show ?thesis
      using gradient_shapes_unary [of x s f out out_grad c] fwd g MulScalar by simp
  next
    case (DivScalar c)
    then obtain x s where *: "ts = [x]" "ss = [s]" "shape_of x = Inr s" using one by auto
    then show ?thesis
      using gradient_shapes_unary [of x s f out out_grad c] fwd g DivScalar by simp
  next
    case (PowerScalar n)
    then obtain x s where *: "ts = [x]" "ss = [s]" "shape_of x = Inr s" using one by auto
    then show ?thesis
      using gradient_shapes_unary [of x s f out out_grad _ n] fwd g PowerScalar by simp
  next
    case Negate
    then obtain x s where *: "ts = [x]" "ss = [s]" "shape_of x = Inr s" using one by auto
    then show ?thesis
      using gradient_shapes_unary [of x s f out out_grad] fwd g Negate by simp
  next
    case Log
    then obtain x s where *: "ts = [x]" "ss = [s]" "shape_of x = Inr s" using one by auto
    then show ?thesis
      using gradient_shapes_unary [of x s f out out_grad] fwd g Log by simp
  next
    case Exp
    then obtain x s where *: "ts = [x]" "ss = [s]" "shape_of x = Inr s" using one by auto
    then show ?thesis
      using gradient_shapes_unary [of x s f out out_grad] fwd g Exp by simp
  next
    case (Transpose axes)
    then obtain x s where *: "ts = [x]" "ss = [s]" "shape_of x = Inr s" using one by auto
    then show ?thesis
      using gradient_shapes_transpose [of x s axes out out_grad] fwd g Transpose by simp
  next
    case (Reshape tgt)
    then obtain x s where *: "ts = [x]" "ss = [s]" "shape_of x = Inr s" using one by auto
    then show ?thesis
      using gradient_shapes_reshape [of x s tgt out out_grad] fwd g Reshape by simp
  next
    case (BroadcastTo tgt)
    then obtain x s where *: "ts = [x]" "ss = [s]" "shape_of x = Inr s" using one by auto
    then show ?thesis
      using broadcast_to_gradient_shape [of x s tgt out out_grad] fwd g BroadcastTo
      by (simp add: broadcast_to_def)
  next
    case (Summation axes)
    then obtain x s where *: "ts = [x]" "ss = [s]" "shape_of x = Inr s" using one by auto
    have "\<And>axs ax. axes = Some axs \<Longrightarrow> ax \<in> set axs \<Longrightarrow> 0 \<le> ax"
      using pre Summation * by (auto simp: list_all_iff)
    then show ?thesis
      using summation_gradient_shape [of x s axes out out_grad] fwd g Summation * by simp
  next
    case ReLU
    then obtain x s where *: "ts = [x]" "ss = [s]" "shape_of x = Inr s" using one by auto
    then show ?thesis
      using gradient_shapes_relu [of x s out out_grad] fwd g pre ReLU by simp
  qed
qed


text \<open>
  Claim C1, as stated, fails where the backend broadcasts an operand of an elementwise
  operator: adding an array without axes to an array of shape (2) is a valid application,
  and the backward rule of EWiseAdd returns the output gradient, of shape (2), for both
  inputs.
\<close>

theorem ewise_add_gradient_broadcast_operand:
  "shape_of (add (Const \<lparr>shape = [2], data = [Fin 1, Fin 2]\<rparr>) (Const \<lparr>shape = [], data = [Fin 5]\<rparr>))
     = Inr [2]
   \<and> gradient EWiseAdd (Const \<lparr>shape = [2], data = [Fin 1, Fin 1]\<rparr>)
        (add (Const \<lparr>shape = [2], data = [Fin 1, Fin 2]\<rparr>) (Const \<lparr>shape = [], data = [Fin 5]\<rparr>))
       = Inr (Many [Const \<lparr>shape = [2], data = [Fin 1, Fin 1]\<rparr>, Const \<lparr>shape = [2], data = [Fin 1, Fin 1]\<rparr>])
   \<and> shape_of (Const \<lparr>shape = [2], data = [Fin 1, Fin 1]\<rparr>) = Inr [2]
   \<and> shape_of (Const \<lparr>shape = [], data = [Fin 5]\<rparr>) = Inr []
   \<and> shape_of (Const \<lparr>shape = [2], data = [Fin 1, Fin 1]\<rparr>) \<noteq> shape_of (Const \<lparr>shape = [], data = [Fin 5]\<rparr>)"
  by code_simp

text \<open>
  Claim C1, amended.  For every operator and every application with a value, within the
  limits of \<open>restoring\<close> (operands of one shape for the elementwise binary operators;
  for MatMul operands with at least two axes whose batch axes are the trailing batch axes
  of the result; axes of Summation given from the front, or none; an input with at least
  one axis for ReLU), the backward rule, given an output gradient of the shape of the node,
  returns one node per input, and each has the shape of its input.
\<close>

theorem gradient_shapes:
  assumes "map shape_of ts = map Inr ss"
    and "shape_of (Apply f ts) = Inr out"
    and "shape_of out_grad = Inr out"
    and "restoring f ss"
  shows "\<exists>r. gradient f out_grad (Apply f ts) = Inr r
           \<and> map shape_of (grad_nodes r) = map Inr ss"
  using assms by (rule gradient_shapes_all)

theorem gradient_shapes_witness:
  "\<exists>r. gradient MatMul (Const \<lparr>shape = [2, 1, 1], data = [Fin 1, Fin 1]\<rparr>)
          (Apply MatMul [Const \<lparr>shape = [1, 2], data = [Fin 1, Fin 2]\<rparr>,
                         Const \<lparr>shape = [2, 2, 1], data = [Fin 1, Fin 2, Fin 3, Fin 4]\<rparr>]) = Inr r
       \<and> map shape_of (grad_nodes r) = [Inr [1, 2], Inr [2, 2, 1]]"
proof -
  let ?g = "Const \<lparr>shape = [2, 1, 1], data = [Fin 1, Fin 1]\<rparr>"
  let ?ts = "[Const \<lparr>shape = [1, 2], data = [Fin 1, Fin 2]\<rparr>,
              Const \<lparr>shape = [2, 2, 1], data = [Fin 1, Fin 2, Fin 3, Fin 4]\<rparr>]"
  have h1: "map shape_of ?ts = map Inr [[1, 2], [2, 2, 1]]" by simp
  have h2: "shape_of (Apply MatMul ?ts) = Inr [2, 1, 1]" by code_simp
  have h3: "shape_of ?g = Inr [2, 1, 1]" by simp
  have h4: "restoring MatMul [[1, 2], [2, 2, 1]]" by code_simp
  from gradient_shapes [OF h1 h2 h3 h4] show ?thesis by simp
qed

text \<open>
  Outside these limits the shapes are not restored: ReLU turns an input without axes into
  an array with one axis, and so does its backward rule; the backward rule of MatMul
  transposes both operands and fails on an operand with one axis.
\<close>

lemma relu_gradient_scalar_input:
  "shape_of (Const \<lparr>shape = [], data = [Fin 3]\<rparr>) = Inr []
   \<and> shape_of (relu (Const \<lparr>shape = [], data = [Fin 3]\<rparr>)) = Inr [1]
   \<and> gradient ReLU (Const \<lparr>shape = [1], data = [Fin 1]\<rparr>) (relu (Const \<lparr>shape = [], data = [Fin 3]\<rparr>))
       = Inr (One (tensor_mul (Const \<lparr>shape = [1], data = [Fin 1]\<rparr>)
                              (Const \<lparr>shape = [], data = [Fin 1]\<rparr>)))
   \<and> shape_of (tensor_mul (Const \<lparr>shape = [1], data = [Fin 1]\<rparr>) (Const \<lparr>shape = [], data = [Fin 1]\<rparr>))
       = Inr [1]"
  by code_simp

lemma matmul_gradient_vector_operand:
  "shape_of (matmul (Const \<lparr>shape = [2], data = [Fin 1, Fin 2]\<rparr>)
                    (Const \<lparr>shape = [2, 2], data = [Fin 1, Fin 2, Fin 3, Fin 4]\<rparr>)) = Inr [2]
   \<and> gradient MatMul (Const \<lparr>shape = [2], data = [Fin 1, Fin 1]\<rparr>)
        (matmul (Const \<lparr>shape = [2], data = [Fin 1, Fin 2]\<rparr>)
                (Const \<lparr>shape = [2, 2], data = [Fin 1, Fin 2, Fin 3, Fin 4]\<rparr>)) = Inl AxisError"
  by code_simp

end
